theory Spec2Isabelle
  imports Main "HOL-Library.Word" "HOL-Library.Signed_Division"
begin

unbundle bit_operations_syntax

section \<open>Shared tiles: descriptor, swizzle period and address function\<close>

text \<open>
  C++ \<open>int\<close> values are modelled as \<open>int\<close>; \<open>/\<close> and \<open>%\<close> between two of them truncate
  towards zero and are written \<open>sdiv\<close> and \<open>smod\<close>.  Addresses are machine words: the
  \<open>uint32_t\<close> overload of \<open>idx\<close> is the instance at \<open>32 word\<close>, the pointer overload
  the instance at \<open>64 word\<close>.
\<close>

text \<open>
  Modelled from the spec: the base-tile quantum \<open>kittens::TILE_ROW_DIM<T>\<close> and
  \<open>kittens::TILE_COL_DIM<T>\<close> of \<open>common.cuh\<close>, which is not among the sources.  The
  spec fixes the quantum at 16 rows; the tile comments speak of 16-element subtiles, and
  the one-byte load and store cases step through a base tile in two halves of 16
  columns, so a one-byte base tile is 32 columns wide.
\<close>

definition TILE_ROW_DIM :: "int \<Rightarrow> int" where
  "TILE_ROW_DIM sz = 16"

definition TILE_COL_DIM :: "int \<Rightarrow> int" where
  "TILE_COL_DIM sz = (if sz = 1 then 32 else 16)"

text \<open>
  The template \<open>st<_T, _rows, _cols>\<close>: the element type enters the address
  computations only through \<open>sizeof(dtype)\<close>, and one static assertion through
  \<open>base_types::packing<dtype>::num()\<close>, the number of scalars packed in a value of the
  type.  The trait \<open>packing\<close> is not among the sources; its value for the element
  type is taken as given.
\<close>

record st =
  sizeof_dtype :: int
  packing_num :: int
  rows :: int
  cols :: int

definition underlying_rows :: "st \<Rightarrow> int" where
  "underlying_rows t = rows t"

definition underlying_cols :: "st \<Rightarrow> int" where
  "underlying_cols t = cols t"

definition underlying_height :: "st \<Rightarrow> int" where
  "underlying_height t = rows t sdiv TILE_ROW_DIM (sizeof_dtype t)"

definition underlying_width :: "st \<Rightarrow> int" where
  "underlying_width t = cols t sdiv TILE_COL_DIM (sizeof_dtype t)"

definition height :: "st \<Rightarrow> int" where
  "height t = rows t sdiv TILE_ROW_DIM (sizeof_dtype t)"

definition width :: "st \<Rightarrow> int" where
  "width t = cols t sdiv TILE_COL_DIM (sizeof_dtype t)"

definition num_elements :: "st \<Rightarrow> int" where
  "num_elements t = rows t * cols t"

text \<open>
  The three \<open>static_assert\<close>s of \<open>st\<close>: two on the extents and one on the packing of
  the element type.  None of them tests the element size or the swizzle period.
\<close>

definition st_static_asserts :: "st \<Rightarrow> bool" where
  "st_static_asserts t \<longleftrightarrow>
     rows t smod TILE_ROW_DIM (sizeof_dtype t) = 0 \<and>
     cols t smod TILE_COL_DIM (sizeof_dtype t) = 0 \<and>
     packing_num t = 1"

definition swizzle_bytes :: "st \<Rightarrow> int" where
  "swizzle_bytes t =
     (if sizeof_dtype t = 1 then
        (if underlying_width t smod 4 = 0 then 128
         else if underlying_width t smod 2 = 0 then 64 else 32)
      else if sizeof_dtype t = 2 then
        (if underlying_width t smod 4 = 0 then 128
         else if underlying_width t smod 2 = 0 then 64 else 32)
      else if sizeof_dtype t = 4 then
        (if underlying_width t smod 2 = 0 then 128 else 64)
      else - 1)"

definition swizzle_repeat :: "st \<Rightarrow> int" where
  "swizzle_repeat t = swizzle_bytes t * 8"

text \<open>
  \<open>swizzle_bytes / sizeof(T)\<close> divides an \<open>int\<close> by a \<open>size_t\<close>: the \<open>int\<close> is converted
  to the unsigned 64-bit type, the division is unsigned, and the quotient is converted
  to \<open>int\<close> when it initialises the \<open>int\<close> constant \<open>subtile_cols\<close>.
\<close>

definition int_div_size_t :: "int \<Rightarrow> int \<Rightarrow> int" where
  "int_div_size_t a b =
     sint (ucast ((word_of_int a :: 64 word) div word_of_int b) :: 32 word)"

definition subtile_cols :: "st \<Rightarrow> int" where
  "subtile_cols t = int_div_size_t (swizzle_bytes t) (sizeof_dtype t)"

text \<open>
  \<open>st::idx\<close>.  The element offset is an \<open>int\<close>; scaled by \<open>sizeof(T)\<close> it is added to
  the base address modulo the word size, and \<open>addr % swizzle_repeat\<close> is an unsigned
  remainder.
\<close>

definition idx :: "st \<Rightarrow> 'a::len word \<Rightarrow> int \<times> int \<Rightarrow> 'a word" where
  "idx t ptr coord =
     (let r = fst coord; c = snd coord;
          outer_idx = c sdiv subtile_cols t;
          addr = ptr + word_of_int (sizeof_dtype t *
                   (outer_idx * rows t * subtile_cols t + r * subtile_cols t
                      + c smod subtile_cols t));
          swizzle = push_bit 4 (drop_bit 7 (addr mod word_of_int (swizzle_repeat t)))
      in addr XOR swizzle)"

text \<open>
  Shared memory is a function from addresses to element values.  The two
  \<open>operator[]\<close> of \<open>st\<close>: by coordinate through \<open>idx\<close>, and by a single integer
  straight into the backing array \<open>data\<close>.
\<close>

definition st_at_coord :: "st \<Rightarrow> ('a::len word \<Rightarrow> 'v) \<Rightarrow> 'a word \<Rightarrow> int \<times> int \<Rightarrow> 'v" where
  "st_at_coord t mem data rowcol = mem (idx t data rowcol)"

definition st_at_index :: "st \<Rightarrow> ('a::len word \<Rightarrow> 'v) \<Rightarrow> 'a word \<Rightarrow> int \<Rightarrow> 'v" where
  "st_at_index t mem data i = mem (data + word_of_int (sizeof_dtype t * i))"

section \<open>Subtile views\<close>

text \<open>
  \<open>st_subtile<ST, _subtile_rows, _subtile_cols>\<close> with its three data members.  The
  static members \<open>underlying_rows\<close> and \<open>swizzle_bytes\<close> are those of the parent \<open>ST\<close>.
\<close>

record 'p st_subtile =
  ST :: st
  sub_rows :: int
  sub_cols :: int
  data :: 'p
  row_offset :: int
  col_offset :: int

definition st_subtile_static_asserts :: "'p st_subtile \<Rightarrow> bool" where
  "st_subtile_static_asserts s \<longleftrightarrow>
     underlying_rows (ST s) smod TILE_ROW_DIM (sizeof_dtype (ST s)) = 0 \<and>
     underlying_cols (ST s) smod TILE_COL_DIM (sizeof_dtype (ST s)) = 0 \<and>
     sub_rows s smod TILE_ROW_DIM (sizeof_dtype (ST s)) = 0 \<and>
     sub_cols s smod TILE_COL_DIM (sizeof_dtype (ST s)) = 0"

text \<open>
  The constructor \<open>st_subtile(ST &src, int2 rowcol)\<close>; \<open>src_data\<close> is the address of
  \<open>src.data[0]\<close>, and the extents are the template arguments of the view.
\<close>

definition st_subtile_ctor ::
  "st \<Rightarrow> int \<Rightarrow> int \<Rightarrow> 'p \<Rightarrow> int \<times> int \<Rightarrow> 'p st_subtile" where
  "st_subtile_ctor src n_rows n_cols src_data rowcol =
     \<lparr> ST = src, sub_rows = n_rows, sub_cols = n_cols, data = src_data,
       row_offset = fst rowcol * n_rows, col_offset = snd rowcol * n_cols \<rparr>"

definition st_subtile_idx :: "'p st_subtile \<Rightarrow> 'a::len word \<Rightarrow> int \<times> int \<Rightarrow> 'a word" where
  "st_subtile_idx s ptr coord =
     (let r = fst coord + row_offset s; c = snd coord + col_offset s;
          outer_idx = c sdiv subtile_cols (ST s);
          addr = ptr + word_of_int (sizeof_dtype (ST s) *
                   (outer_idx * underlying_rows (ST s) * subtile_cols (ST s)
                      + r * subtile_cols (ST s) + c smod subtile_cols (ST s)));
          swizzle = push_bit 4 (drop_bit 7 (addr mod word_of_int (swizzle_repeat (ST s))))
      in addr XOR swizzle)"

definition st_subtile_at_coord ::
  "'a::len word st_subtile \<Rightarrow> ('a word \<Rightarrow> 'v) \<Rightarrow> int \<times> int \<Rightarrow> 'v" where
  "st_subtile_at_coord s mem rowcol = mem (st_subtile_idx s (data s) rowcol)"

definition st_subtile_swizzle_bytes :: "'p st_subtile \<Rightarrow> int" where
  "st_subtile_swizzle_bytes s = swizzle_bytes (ST s)"

text \<open>
  The swizzle period in the words of the specification: 128, 64 or 32 bytes for one-
  and two-byte elements by the width in base tiles, 128 or 64 for four-byte elements,
  and no period for any other element size.
\<close>

definition spec_swizzle_period :: "int \<Rightarrow> int \<Rightarrow> int option" where
  "spec_swizzle_period elem_bytes w =
     (if elem_bytes = 1 \<or> elem_bytes = 2 then
        Some (if 4 dvd w then 128 else if 2 dvd w then 64 else 32)
      else if elem_bytes = 4 then
        Some (if 2 dvd w then 128 else 64)
      else None)"

section \<open>Transfers between shared tiles and register tiles\<close>

text \<open>
  A failed \<open>static_assert\<close> is a value: an instantiation of a template either is
  rejected with the message of the assertion or yields the function's result.
\<close>

datatype static_error = StaticAssert string

datatype rt_layout = rt_layout_row | rt_layout_col

text \<open>
  The members of the register tile type \<open>RT\<close> that the transfers read.  Its
  declaration is not among the sources; these are taken as given.
\<close>

record rt =
  rt_height :: int
  rt_width :: int
  tile_size_row :: int
  tile_size_col :: int
  layout :: rt_layout

text \<open>
  The shared tile argument \<open>ST\<close> is either a root tile, given with the address of its
  \<open>data\<close>, or a subtile view.
\<close>

datatype 'p shared_tile = Root st 'p | Subtile "'p st_subtile"

fun st_type :: "'p shared_tile \<Rightarrow> st" where
  "st_type (Root t d) = t"
| "st_type (Subtile s) = ST s"

fun st_rows :: "'p shared_tile \<Rightarrow> int" where
  "st_rows (Root t d) = rows t"
| "st_rows (Subtile s) = sub_rows s"

fun st_cols :: "'p shared_tile \<Rightarrow> int" where
  "st_cols (Root t d) = cols t"
| "st_cols (Subtile s) = sub_cols s"

fun st_data :: "'p shared_tile \<Rightarrow> 'p" where
  "st_data (Root t d) = d"
| "st_data (Subtile s) = data s"

fun st_idx :: "'p shared_tile \<Rightarrow> 'a::len word \<Rightarrow> int \<times> int \<Rightarrow> 'a word" where
  "st_idx (Root t d) = idx t"
| "st_idx (Subtile s) = st_subtile_idx s"

definition st_height :: "'p shared_tile \<Rightarrow> int" where
  "st_height S = st_rows S sdiv TILE_ROW_DIM (sizeof_dtype (st_type S))"

definition st_width :: "'p shared_tile \<Rightarrow> int" where
  "st_width S = st_cols S sdiv TILE_COL_DIM (sizeof_dtype (st_type S))"

text \<open>
  The row and column of the four-byte row-major case: a tile whose extents are its
  underlying extents uses the plain coordinate, any other adds the offsets of the view.
\<close>

fun view_offset :: "'p shared_tile \<Rightarrow> int \<times> int \<Rightarrow> int \<times> int" where
  "view_offset (Root t d) (row, col) = (row, col)"
| "view_offset (Subtile s) (row, col) =
     (if sub_rows s = underlying_rows (ST s) \<and> sub_cols s = underlying_cols (ST s)
      then (row, col)
      else (row + row_offset s, col + col_offset s))"

text \<open>
  What the transfers take from outside: the grouped matrix loads and stores of the
  hardware (they see the address every lane supplies), the conversions between the
  packed shared type \<open>U2\<close> and the packed register type \<open>T2\<close>, and whether the build
  targets Hopper.
\<close>

type_synonym 'u packed4 = "('u \<times> 'u) \<times> ('u \<times> 'u) \<times> ('u \<times> 'u) \<times> ('u \<times> 'u)"

record ('w, 'u, 't) env =
  ldsm4 :: "('w \<Rightarrow> 'u) \<Rightarrow> (int \<Rightarrow> 'w) \<Rightarrow> int \<Rightarrow> 'u packed4"
  ldsm4t :: "('w \<Rightarrow> 'u) \<Rightarrow> (int \<Rightarrow> 'w) \<Rightarrow> int \<Rightarrow> 'u packed4"
  stsm4 :: "('w \<Rightarrow> 'u) \<Rightarrow> (int \<Rightarrow> 'w) \<Rightarrow> (int \<Rightarrow> 'u packed4) \<Rightarrow> ('w \<Rightarrow> 'u)"
  stsm4t :: "('w \<Rightarrow> 'u) \<Rightarrow> (int \<Rightarrow> 'w) \<Rightarrow> (int \<Rightarrow> 'u packed4) \<Rightarrow> ('w \<Rightarrow> 'u)"
  to_reg :: "'u \<times> 'u \<Rightarrow> 't \<times> 't"
  to_shared :: "'t \<times> 't \<Rightarrow> 'u \<times> 'u"
  KITTENS_HOPPER :: bool

text \<open>
  A register tile holds, for every lane and every base tile \<open>(i, j)\<close>, the array
  \<open>data\<close> of four packed values.  The lanes of a warp are 0 to 31.
\<close>

type_synonym 't regs = "int \<Rightarrow> int \<Rightarrow> int \<Rightarrow> ('t \<times> 't) list"

definition lanes :: "int list" where
  "lanes = [0..31]"

subsection \<open>load\<close>

text \<open>
  The body of the two loops of \<open>load\<close> for one lane and one base tile \<open>(i, j)\<close>: the
  new contents of \<open>dst.tiles[i][j].data\<close>, or \<open>None\<close> when no branch of the
  \<open>if constexpr\<close> chain applies and nothing is written.  \<open>lds\<close> reads one element.
\<close>

definition load_tile ::
  "('a::len word, 'u, 't) env \<Rightarrow> rt \<Rightarrow> 'a word shared_tile \<Rightarrow> ('a word \<Rightarrow> 'u)
     \<Rightarrow> int \<Rightarrow> int \<Rightarrow> int \<Rightarrow> ('t \<times> 't) list option" where
  "load_tile E RT S mem laneid i j =
     (let sz = sizeof_dtype (st_type S); shared_addr = st_data S in
      if sz = 2 then
        (let addr = (\<lambda>l. st_idx S shared_addr
                      (i * tile_size_row RT + l smod 16, j * tile_size_col RT + (l sdiv 16) * 8));
             (tmp0, tmp1, tmp2, tmp3) =
               (if layout RT = rt_layout_row then ldsm4 E mem addr laneid
                else (case ldsm4t E mem addr laneid of (o0, o1, o2, o3) \<Rightarrow> (o0, o2, o1, o3)))
         in Some [to_reg E tmp0, to_reg E tmp1, to_reg E tmp2, to_reg E tmp3])
      else if layout RT = rt_layout_row \<and> sz = 1 then
        (let addr = (\<lambda>l. st_idx S shared_addr
                      (i * tile_size_row RT + l smod 16, j * tile_size_col RT + (l sdiv 16) * 16));
             (tmp0, tmp1, tmp2, tmp3) =
               (if layout RT = rt_layout_row then ldsm4 E mem addr laneid
                else (case ldsm4t E mem addr laneid of (o0, o1, o2, o3) \<Rightarrow> (o0, o2, o1, o3)))
         in Some [to_reg E tmp0, to_reg E tmp1, to_reg E tmp2, to_reg E tmp3])
      else if layout RT = rt_layout_row \<and> sz = 4 then
        (let (row, col) = view_offset S
               (i * tile_size_row RT + laneid sdiv 4, j * tile_size_col RT + 2 * (laneid smod 4));
             blit = sz * ((laneid smod 4) sdiv 2);
             swizzle_repeat = swizzle_bytes (st_type S) * 8;
             subtile_cols = int_div_size_t (swizzle_bytes (st_type S)) sz;
             outer_idx = col sdiv subtile_cols;
             addr_1 = shared_addr + word_of_int (sz *
                        (outer_idx * underlying_rows (st_type S) * subtile_cols
                           + (row + 0) * subtile_cols + col smod subtile_cols));
             addr_2 = shared_addr + word_of_int (sz *
                        (outer_idx * underlying_rows (st_type S) * subtile_cols
                           + (row + 8) * subtile_cols + col smod subtile_cols));
             swizzle_1 = word_of_int blit
                           XOR push_bit 4 (drop_bit 7 (addr_1 mod word_of_int swizzle_repeat));
             swizzle_2 = word_of_int blit
                           XOR push_bit 4 (drop_bit 7 (addr_2 mod word_of_int swizzle_repeat));
             tmp0 = (mem ((addr_1 + 0) XOR swizzle_1), mem ((addr_1 + 4) XOR swizzle_1));
             tmp2 = (mem ((addr_1 + 32) XOR swizzle_1), mem ((addr_1 + 36) XOR swizzle_1));
             tmp1 = (mem ((addr_2 + 0) XOR swizzle_2), mem ((addr_2 + 4) XOR swizzle_2));
             tmp3 = (mem ((addr_2 + 32) XOR swizzle_2), mem ((addr_2 + 36) XOR swizzle_2));
             ds = [to_reg E tmp0, to_reg E tmp1, to_reg E tmp2, to_reg E tmp3]
         in Some (if blit \<noteq> 0 then map (\<lambda>d. (snd d, fst d)) ds else ds))
      else if sz \<noteq> 1 then
        (let row = i * tile_size_row RT + 2 * (laneid smod 4);
             col = j * tile_size_col RT + laneid sdiv 4;
             tmp0 = (mem (st_idx S shared_addr (row + 0, col + 0)),
                     mem (st_idx S shared_addr (row + 1, col + 0)));
             tmp1 = (mem (st_idx S shared_addr (row + 0, col + 8)),
                     mem (st_idx S shared_addr (row + 1, col + 8)));
             tmp2 = (mem (st_idx S shared_addr (row + 8, col + 0)),
                     mem (st_idx S shared_addr (row + 9, col + 0)));
             tmp3 = (mem (st_idx S shared_addr (row + 8, col + 8)),
                     mem (st_idx S shared_addr (row + 9, col + 8)))
         in Some [to_reg E tmp0, to_reg E tmp1, to_reg E tmp2, to_reg E tmp3])
      else None)"

text \<open>The update of \<open>dst.tiles[i][j]\<close> by one pass through the loop body.\<close>

definition load_body ::
  "('a::len word, 'u, 't) env \<Rightarrow> rt \<Rightarrow> 'a word shared_tile \<Rightarrow> ('a word \<Rightarrow> 'u)
     \<Rightarrow> int \<Rightarrow> int \<Rightarrow> int \<Rightarrow> (int \<Rightarrow> int \<Rightarrow> ('t \<times> 't) list)
     \<Rightarrow> (int \<Rightarrow> int \<Rightarrow> ('t \<times> 't) list)" where
  "load_body E RT S mem laneid i j tiles =
     (case load_tile E RT S mem laneid i j of
        None \<Rightarrow> tiles
      | Some ds \<Rightarrow> tiles(i := (tiles i)(j := ds)))"

text \<open>
  \<open>load\<close>: the two \<open>static_assert\<close>s, then every lane of the warp runs the two loops
  on its own registers.
\<close>

definition load ::
  "('a::len word, 'u, 't) env \<Rightarrow> rt \<Rightarrow> 'a word shared_tile \<Rightarrow> ('a word \<Rightarrow> 'u)
     \<Rightarrow> 't regs \<Rightarrow> static_error + 't regs" where
  "load E RT S mem dst =
     (if rt_height RT \<noteq> st_height S
        then Inl (StaticAssert ''register tile and shared tile must match height'')
      else if rt_width RT \<noteq> st_width S
        then Inl (StaticAssert ''register tile and shared tile must match width'')
      else Inr (\<lambda>laneid.
        if laneid \<in> set lanes
        then fold (\<lambda>i. fold (load_body E RT S mem laneid i) [0..rt_width RT - 1])
               [0..rt_height RT - 1] (dst laneid)
        else dst laneid))"

subsection \<open>store and atomic_add\<close>

text \<open>
  What a warp does to shared memory: a lane's single store \<open>Sts\<close>, a lane's atomic
  add \<open>Adds\<close>, and the grouped matrix stores, which every lane enters with its own
  address and registers.  A packed store or add of a pair is two element operations,
  the second one element further on.
\<close>

datatype ('w, 'u) warp_op =
    Sts 'w 'u
  | Adds 'w 'u
  | Stsm4 "int \<Rightarrow> 'w" "int \<Rightarrow> 'u packed4"
  | Stsm4t "int \<Rightarrow> 'w" "int \<Rightarrow> 'u packed4"

definition sts_packed :: "int \<Rightarrow> 'a::len word \<Rightarrow> 'u \<times> 'u \<Rightarrow> ('a word, 'u) warp_op list" where
  "sts_packed sz a v = [Sts a (fst v), Sts (a + word_of_int sz) (snd v)]"

definition adds_packed :: "int \<Rightarrow> 'a::len word \<Rightarrow> 'u \<times> 'u \<Rightarrow> ('a word, 'u) warp_op list" where
  "adds_packed sz a v = [Adds a (fst v), Adds (a + word_of_int sz) (snd v)]"

fun exec :: "('w, 'u::plus, 't) env \<Rightarrow> ('w, 'u) warp_op \<Rightarrow> ('w \<Rightarrow> 'u) \<Rightarrow> ('w \<Rightarrow> 'u)" where
  "exec E (Sts a v) mem = mem(a := v)"
| "exec E (Adds a v) mem = mem(a := mem a + v)"
| "exec E (Stsm4 addr vals) mem = stsm4 E mem addr vals"
| "exec E (Stsm4t addr vals) mem = stsm4t E mem addr vals"

fun op_addr :: "('w, 'u) warp_op \<Rightarrow> 'w option" where
  "op_addr (Sts a v) = Some a"
| "op_addr (Adds a v) = Some a"
| "op_addr (Stsm4 addr vals) = None"
| "op_addr (Stsm4t addr vals) = None"

text \<open>
  The body of the two loops of \<open>store\<close> for one base tile \<open>(i, j)\<close>: the operations of
  the warp, lane after lane.
\<close>

definition store_tile ::
  "('a::len word, 'u, 't) env \<Rightarrow> rt \<Rightarrow> 'a word shared_tile \<Rightarrow> 't regs
     \<Rightarrow> int \<Rightarrow> int \<Rightarrow> ('a word, 'u) warp_op list" where
  "store_tile E RT S src i j =
     (let sz = sizeof_dtype (st_type S); shared_addr = st_data S in
      if sz = 2 then
        (if KITTENS_HOPPER E then
          (let addr = (\<lambda>l. st_idx S shared_addr
                        (i * tile_size_row RT + l smod 16, j * tile_size_col RT + (l sdiv 16) * 8));
               tmp0 = (\<lambda>l. to_shared E (src l i j ! 0));
               tmp1 = (\<lambda>l. to_shared E (src l i j ! 1));
               tmp2 = (\<lambda>l. to_shared E (src l i j ! 2));
               tmp3 = (\<lambda>l. to_shared E (src l i j ! 3))
           in if layout RT = rt_layout_row
              then [Stsm4 addr (\<lambda>l. (tmp0 l, tmp1 l, tmp2 l, tmp3 l))]
              else [Stsm4t addr (\<lambda>l. (tmp0 l, tmp2 l, tmp1 l, tmp3 l))])
         else if layout RT = rt_layout_row then
          concat (map (\<lambda>laneid.
             (let row = i * tile_size_row RT + laneid sdiv 4;
                  col = j * tile_size_col RT + 2 * (laneid smod 4);
                  tmp0 = to_shared E (src laneid i j ! 0);
                  tmp1 = to_shared E (src laneid i j ! 1);
                  tmp2 = to_shared E (src laneid i j ! 2);
                  tmp3 = to_shared E (src laneid i j ! 3)
              in sts_packed sz (st_idx S shared_addr (row + 0, col + 0)) tmp0
               @ sts_packed sz (st_idx S shared_addr (row + 8, col + 0)) tmp1
               @ sts_packed sz (st_idx S shared_addr (row + 0, col + 8)) tmp2
               @ sts_packed sz (st_idx S shared_addr (row + 8, col + 8)) tmp3)) lanes)
         else
          concat (map (\<lambda>laneid.
          (let row = i * tile_size_row RT + 2 * (laneid smod 4);
               col = j * tile_size_col RT + laneid sdiv 4;
               tmp0 = to_shared E (src laneid i j ! 0);
               tmp1 = to_shared E (src laneid i j ! 1);
               tmp2 = to_shared E (src laneid i j ! 2);
               tmp3 = to_shared E (src laneid i j ! 3)
           in [Sts (st_idx S shared_addr (row + 0, col + 0)) (fst tmp0),
               Sts (st_idx S shared_addr (row + 1, col + 0)) (snd tmp0),
               Sts (st_idx S shared_addr (row + 0, col + 8)) (fst tmp1),
               Sts (st_idx S shared_addr (row + 1, col + 8)) (snd tmp1),
               Sts (st_idx S shared_addr (row + 8, col + 0)) (fst tmp2),
               Sts (st_idx S shared_addr (row + 9, col + 0)) (snd tmp2),
               Sts (st_idx S shared_addr (row + 8, col + 8)) (fst tmp3),
               Sts (st_idx S shared_addr (row + 9, col + 8)) (snd tmp3)])) lanes))
      else if sz = 1 then
          (let addr = (\<lambda>l. st_idx S shared_addr
                        (i * tile_size_row RT + l smod 16, j * tile_size_col RT + (l sdiv 16) * 16));
               tmp0 = (\<lambda>l. to_shared E (src l i j ! 0));
               tmp1 = (\<lambda>l. to_shared E (src l i j ! 1));
               tmp2 = (\<lambda>l. to_shared E (src l i j ! 2));
               tmp3 = (\<lambda>l. to_shared E (src l i j ! 3))
           in if layout RT = rt_layout_row
              then [Stsm4 addr (\<lambda>l. (tmp0 l, tmp1 l, tmp2 l, tmp3 l))]
              else [Stsm4t addr (\<lambda>l. (tmp0 l, tmp2 l, tmp1 l, tmp3 l))])
      else if layout RT = rt_layout_row \<and> sz = 4 then
          concat (map (\<lambda>laneid.
          (let (row, col) = view_offset S
                 (i * tile_size_row RT + laneid sdiv 4, j * tile_size_col RT + 2 * (laneid smod 4));
               blit = sz * ((laneid smod 4) sdiv 2);
               reg_tmp = (if blit \<noteq> 0 then map (\<lambda>d. (snd d, fst d)) (src laneid i j)
                          else src laneid i j);
               tmp0 = to_shared E (reg_tmp ! 0);
               tmp1 = to_shared E (reg_tmp ! 1);
               tmp2 = to_shared E (reg_tmp ! 2);
               tmp3 = to_shared E (reg_tmp ! 3);
               swizzle_repeat = swizzle_bytes (st_type S) * 8;
               subtile_cols = int_div_size_t (swizzle_bytes (st_type S)) sz;
               outer_idx = col sdiv subtile_cols;
               addr_1 = shared_addr + word_of_int (sz *
                          (outer_idx * underlying_rows (st_type S) * subtile_cols
                             + (row + 0) * subtile_cols + col smod subtile_cols));
               addr_2 = shared_addr + word_of_int (sz *
                          (outer_idx * underlying_rows (st_type S) * subtile_cols
                             + (row + 8) * subtile_cols + col smod subtile_cols));
               swizzle_1 = word_of_int blit
                             XOR push_bit 4 (drop_bit 7 (addr_1 mod word_of_int swizzle_repeat));
               swizzle_2 = word_of_int blit
                             XOR push_bit 4 (drop_bit 7 (addr_2 mod word_of_int swizzle_repeat))
           in [Sts ((addr_1 + 0) XOR swizzle_1) (fst tmp0),
               Sts ((addr_1 + 4) XOR swizzle_1) (snd tmp0),
               Sts ((addr_1 + 32) XOR swizzle_1) (fst tmp2),
               Sts ((addr_1 + 36) XOR swizzle_1) (snd tmp2),
               Sts ((addr_2 + 0) XOR swizzle_2) (fst tmp1),
               Sts ((addr_2 + 4) XOR swizzle_2) (snd tmp1),
               Sts ((addr_2 + 32) XOR swizzle_2) (fst tmp3),
               Sts ((addr_2 + 36) XOR swizzle_2) (snd tmp3)])) lanes)
      else if sz \<noteq> 1 then
          concat (map (\<lambda>laneid.
          (let row = i * tile_size_row RT + 2 * (laneid smod 4);
               col = j * tile_size_col RT + laneid sdiv 4;
               tmp0 = to_shared E (src laneid i j ! 0);
               tmp1 = to_shared E (src laneid i j ! 1);
               tmp2 = to_shared E (src laneid i j ! 2);
               tmp3 = to_shared E (src laneid i j ! 3)
           in [Sts (st_idx S shared_addr (row + 0, col + 0)) (fst tmp0),
               Sts (st_idx S shared_addr (row + 1, col + 0)) (snd tmp0),
               Sts (st_idx S shared_addr (row + 0, col + 8)) (fst tmp1),
               Sts (st_idx S shared_addr (row + 1, col + 8)) (snd tmp1),
               Sts (st_idx S shared_addr (row + 8, col + 0)) (fst tmp2),
               Sts (st_idx S shared_addr (row + 9, col + 0)) (snd tmp2),
               Sts (st_idx S shared_addr (row + 8, col + 8)) (fst tmp3),
               Sts (st_idx S shared_addr (row + 9, col + 8)) (snd tmp3)])) lanes)
      else [])"

definition store ::
  "('a::len word, 'u::plus, 't) env \<Rightarrow> rt \<Rightarrow> 'a word shared_tile \<Rightarrow> 't regs
     \<Rightarrow> ('a word \<Rightarrow> 'u) \<Rightarrow> static_error + ('a word \<Rightarrow> 'u)" where
  "store E RT S src mem =
     (if rt_height RT \<noteq> st_height S
        then Inl (StaticAssert ''register tile and shared tile must match height'')
      else if rt_width RT \<noteq> st_width S
        then Inl (StaticAssert ''register tile and shared tile must match width'')
      else Inr (fold (\<lambda>i. fold (\<lambda>j. fold (exec E) (store_tile E RT S src i j))
                        [0..rt_width RT - 1])
                  [0..rt_height RT - 1] mem))"

definition atomic_add_tile ::
  "('a::len word, 'u, 't) env \<Rightarrow> rt \<Rightarrow> 'a word shared_tile \<Rightarrow> 't regs
     \<Rightarrow> int \<Rightarrow> int \<Rightarrow> ('a word, 'u) warp_op list" where
  "atomic_add_tile E RT S src i j =
     (let sz = sizeof_dtype (st_type S); shared_addr = st_data S in
      if sz = 2 then
        (if layout RT = rt_layout_row then
          concat (map (\<lambda>laneid.
             (let row = i * tile_size_row RT + laneid sdiv 4;
                  col = j * tile_size_col RT + 2 * (laneid smod 4);
                  tmp0 = to_shared E (src laneid i j ! 0);
                  tmp1 = to_shared E (src laneid i j ! 1);
                  tmp2 = to_shared E (src laneid i j ! 2);
                  tmp3 = to_shared E (src laneid i j ! 3)
              in adds_packed sz (st_idx S shared_addr (row + 0, col + 0)) tmp0
               @ adds_packed sz (st_idx S shared_addr (row + 8, col + 0)) tmp1
               @ adds_packed sz (st_idx S shared_addr (row + 0, col + 8)) tmp2
               @ adds_packed sz (st_idx S shared_addr (row + 8, col + 8)) tmp3)) lanes)
         else
          concat (map (\<lambda>laneid.
          (let row = i * tile_size_row RT + 2 * (laneid smod 4);
               col = j * tile_size_col RT + laneid sdiv 4;
               tmp0 = to_shared E (src laneid i j ! 0);
               tmp1 = to_shared E (src laneid i j ! 1);
               tmp2 = to_shared E (src laneid i j ! 2);
               tmp3 = to_shared E (src laneid i j ! 3)
           in [Adds (st_idx S shared_addr (row + 0, col + 0)) (fst tmp0),
               Adds (st_idx S shared_addr (row + 1, col + 0)) (snd tmp0),
               Adds (st_idx S shared_addr (row + 0, col + 8)) (fst tmp1),
               Adds (st_idx S shared_addr (row + 1, col + 8)) (snd tmp1),
               Adds (st_idx S shared_addr (row + 8, col + 0)) (fst tmp2),
               Adds (st_idx S shared_addr (row + 9, col + 0)) (snd tmp2),
               Adds (st_idx S shared_addr (row + 8, col + 8)) (fst tmp3),
               Adds (st_idx S shared_addr (row + 9, col + 8)) (snd tmp3)])) lanes))
      else if layout RT = rt_layout_row \<and> sz = 4 then
          concat (map (\<lambda>laneid.
          (let (row, col) = view_offset S
                 (i * tile_size_row RT + laneid sdiv 4, j * tile_size_col RT + 2 * (laneid smod 4));
               blit = sz * ((laneid smod 4) sdiv 2);
               reg_tmp = (if blit \<noteq> 0 then map (\<lambda>d. (snd d, fst d)) (src laneid i j)
                          else src laneid i j);
               tmp0 = to_shared E (reg_tmp ! 0);
               tmp1 = to_shared E (reg_tmp ! 1);
               tmp2 = to_shared E (reg_tmp ! 2);
               tmp3 = to_shared E (reg_tmp ! 3);
               swizzle_repeat = swizzle_bytes (st_type S) * 8;
               subtile_cols = int_div_size_t (swizzle_bytes (st_type S)) sz;
               outer_idx = col sdiv subtile_cols;
               addr_1 = shared_addr + word_of_int (sz *
                          (outer_idx * underlying_rows (st_type S) * subtile_cols
                             + (row + 0) * subtile_cols + col smod subtile_cols));
               addr_2 = shared_addr + word_of_int (sz *
                          (outer_idx * underlying_rows (st_type S) * subtile_cols
                             + (row + 8) * subtile_cols + col smod subtile_cols));
               swizzle_1 = word_of_int blit
                             XOR push_bit 4 (drop_bit 7 (addr_1 mod word_of_int swizzle_repeat));
               swizzle_2 = word_of_int blit
                             XOR push_bit 4 (drop_bit 7 (addr_2 mod word_of_int swizzle_repeat))
           in [Adds ((addr_1 + 0) XOR swizzle_1) (fst tmp0),
               Adds ((addr_1 + 4) XOR swizzle_1) (snd tmp0),
               Adds ((addr_1 + 32) XOR swizzle_1) (fst tmp2),
               Adds ((addr_1 + 36) XOR swizzle_1) (snd tmp2),
               Adds ((addr_2 + 0) XOR swizzle_2) (fst tmp1),
               Adds ((addr_2 + 4) XOR swizzle_2) (snd tmp1),
               Adds ((addr_2 + 32) XOR swizzle_2) (fst tmp3),
               Adds ((addr_2 + 36) XOR swizzle_2) (snd tmp3)])) lanes)
      else if sz \<noteq> 1 then
          concat (map (\<lambda>laneid.
          (let row = i * tile_size_row RT + 2 * (laneid smod 4);
               col = j * tile_size_col RT + laneid sdiv 4;
               tmp0 = to_shared E (src laneid i j ! 0);
               tmp1 = to_shared E (src laneid i j ! 1);
               tmp2 = to_shared E (src laneid i j ! 2);
               tmp3 = to_shared E (src laneid i j ! 3)
           in [Adds (st_idx S shared_addr (row + 0, col + 0)) (fst tmp0),
               Adds (st_idx S shared_addr (row + 1, col + 0)) (snd tmp0),
               Adds (st_idx S shared_addr (row + 0, col + 8)) (fst tmp1),
               Adds (st_idx S shared_addr (row + 1, col + 8)) (snd tmp1),
               Adds (st_idx S shared_addr (row + 8, col + 0)) (fst tmp2),
               Adds (st_idx S shared_addr (row + 9, col + 0)) (snd tmp2),
               Adds (st_idx S shared_addr (row + 8, col + 8)) (fst tmp3),
               Adds (st_idx S shared_addr (row + 9, col + 8)) (snd tmp3)])) lanes)
      else [])"

definition atomic_add ::
  "('a::len word, 'u::plus, 't) env \<Rightarrow> rt \<Rightarrow> 'a word shared_tile \<Rightarrow> 't regs
     \<Rightarrow> ('a word \<Rightarrow> 'u) \<Rightarrow> static_error + ('a word \<Rightarrow> 'u)" where
  "atomic_add E RT S src mem =
     (if rt_height RT \<noteq> st_height S
        then Inl (StaticAssert ''register tile and shared tile must match height'')
      else if rt_width RT \<noteq> st_width S
        then Inl (StaticAssert ''register tile and shared tile must match width'')
      else if sizeof_dtype (st_type S) = 1
        then Inl (StaticAssert ''atomic_add is not supported for this type'')
      else Inr (fold (\<lambda>i. fold (\<lambda>j. fold (exec E) (atomic_add_tile E RT S src i j))
                        [0..rt_width RT - 1])
                  [0..rt_height RT - 1] mem))"

section \<open>The multiply-accumulate dispatcher\<close>

text \<open>
  \<open>base<T_D, T_AB, 80, trans_a, trans_b>\<close>.  An instantiation that passes the two
  \<open>static_assert\<close>s issues one \<open>wgmma.mma_async\<close> instruction; what is recorded of it
  is its type suffix and its scalar operands: the predicate from \<open>scale_d\<close>, the
  immediate scale of A (always 1), the immediate scale of B, and the transpose
  immediates (\<open>rt_st\<close> passes none for A).
\<close>

datatype dtype = dt_float | dt_bf16 | dt_half | dt_fp8e4m3 | dt_fp8e5m2

record wgmma =
  suffix :: string
  scale_d_pred :: bool
  imm_scale_a :: int
  imm_scale_b :: int
  imm_trans_a :: "int option"
  imm_trans_b :: int

definition rt_st :: "dtype \<Rightarrow> dtype \<Rightarrow> int \<Rightarrow> int \<Rightarrow> int \<Rightarrow> int \<Rightarrow> static_error + wgmma" where
  "rt_st T_D T_AB trans_a trans_b scale_b scale_d =
     (if (T_D = dt_float \<and> T_AB = dt_bf16) \<or> (T_D = dt_float \<and> T_AB = dt_half)
          \<or> (T_D = dt_half \<and> T_AB = dt_half)
      then
        (if scale_b = 1 \<or> scale_b = - 1 then
           Inr \<lparr> suffix =
                   (if T_D = dt_float \<and> T_AB = dt_bf16 then ''m64n80k16.f32.bf16.bf16''
                    else if T_D = dt_float \<and> T_AB = dt_half then ''m64n80k16.f32.f16.f16''
                    else ''m64n80k16.f16.f16.f16''),
                 scale_d_pred = (scale_d \<noteq> 0), imm_scale_a = 1, imm_scale_b = scale_b,
                 imm_trans_a = None, imm_trans_b = trans_b \<rparr>
         else Inl (StaticAssert ''Invalid scale B (invert) option''))
      else Inl (StaticAssert ''Invalid type combination for WGMMA.''))"

definition st_st :: "dtype \<Rightarrow> dtype \<Rightarrow> int \<Rightarrow> int \<Rightarrow> int \<Rightarrow> int \<Rightarrow> static_error + wgmma" where
  "st_st T_D T_AB trans_a trans_b scale_b scale_d =
     (if (T_D = dt_float \<and> T_AB = dt_bf16) \<or> (T_D = dt_float \<and> T_AB = dt_half)
          \<or> (T_D = dt_half \<and> T_AB = dt_half)
      then
        (if scale_b = 1 \<or> scale_b = - 1 then
           Inr \<lparr> suffix =
                   (if T_D = dt_float \<and> T_AB = dt_bf16 then ''m64n80k16.f32.bf16.bf16''
                    else if T_D = dt_float \<and> T_AB = dt_half then ''m64n80k16.f32.f16.f16''
                    else ''m64n80k16.f16.f16.f16''),
                 scale_d_pred = (scale_d \<noteq> 0), imm_scale_a = 1, imm_scale_b = scale_b,
                 imm_trans_a = Some trans_a, imm_trans_b = trans_b \<rparr>
         else Inl (StaticAssert ''Invalid scale B (invert) option''))
      else Inl (StaticAssert ''Invalid type combination for WGMMA.''))"

definition instantiates :: "static_error + 'r \<Rightarrow> bool" where
  "instantiates res = (case res of Inl e \<Rightarrow> False | Inr x \<Rightarrow> True)"

section \<open>Notions used in the statements\<close>

text \<open>
  A tile that can exist: an element of one, two or four bytes, positive extents, and
  the two static assertions.
\<close>

definition st_valid :: "st \<Rightarrow> bool" where
  "st_valid t \<longleftrightarrow>
     (sizeof_dtype t = 1 \<or> sizeof_dtype t = 2 \<or> sizeof_dtype t = 4)
     \<and> 0 < rows t \<and> 0 < cols t \<and> st_static_asserts t"

text \<open>The values of the locals \<open>addr\<close> and \<open>swizzle\<close> of \<open>st::idx\<close>.\<close>

definition idx_addr :: "st \<Rightarrow> 'a::len word \<Rightarrow> int \<times> int \<Rightarrow> 'a word" where
  "idx_addr t ptr coord =
     ptr + word_of_int (sizeof_dtype t *
       ((snd coord sdiv subtile_cols t) * rows t * subtile_cols t
          + fst coord * subtile_cols t + snd coord smod subtile_cols t))"

definition idx_swizzle :: "st \<Rightarrow> 'a::len word \<Rightarrow> int \<times> int \<Rightarrow> 'a word" where
  "idx_swizzle t ptr coord =
     push_bit 4 (drop_bit 7 (idx_addr t ptr coord mod word_of_int (swizzle_repeat t)))"

text \<open>
  The coordinates of the base tile \<open>(qi, qj)\<close>, and those of the block \<open>(bi, bj)\<close>
  that is one base tile high and one swizzle period (\<open>subtile_cols\<close> columns) wide.
\<close>

definition quantum :: "st \<Rightarrow> int \<Rightarrow> int \<Rightarrow> (int \<times> int) set" where
  "quantum t qi qj =
     {TILE_ROW_DIM (sizeof_dtype t) * qi ..< TILE_ROW_DIM (sizeof_dtype t) * (qi + 1)}
     \<times> {TILE_COL_DIM (sizeof_dtype t) * qj ..< TILE_COL_DIM (sizeof_dtype t) * (qj + 1)}"

definition swizzle_block :: "st \<Rightarrow> int \<Rightarrow> int \<Rightarrow> (int \<times> int) set" where
  "swizzle_block t bi bj =
     {TILE_ROW_DIM (sizeof_dtype t) * bi ..< TILE_ROW_DIM (sizeof_dtype t) * (bi + 1)}
     \<times> {subtile_cols t * bj ..< subtile_cols t * (bj + 1)}"

text \<open>\<open>n\<close> consecutive element slots of \<open>sz\<close> bytes from the address \<open>base\<close>.\<close>

definition slots :: "'a::len word \<Rightarrow> int \<Rightarrow> int \<Rightarrow> 'a word set" where
  "slots base sz n = (\<lambda>e. base + word_of_int (sz * e)) ` {0 ..< n}"

definition onto_contiguous_range :: "st \<Rightarrow> 'a::len word \<Rightarrow> (int \<times> int) set \<Rightarrow> bool" where
  "onto_contiguous_range t ptr D \<longleftrightarrow>
     (\<exists>base. bij_betw (idx t ptr) D (slots base (sizeof_dtype t) (int (card D))))"

text \<open>The XOR step of \<open>idx\<close> on its own, for a swizzle period of \<open>2 ^ k\<close> bytes.\<close>

definition swz :: "nat \<Rightarrow> 'a::len word \<Rightarrow> 'a word" where
  "swz k a = a XOR push_bit 4 (drop_bit 7 (take_bit (k + 3) a))"

text \<open>The XOR step of \<open>idx\<close> as a function of the unswizzled address.\<close>

definition xor_swizzle :: "st \<Rightarrow> 'a::len word \<Rightarrow> 'a word" where
  "xor_swizzle t a = a XOR push_bit 4 (drop_bit 7 (a mod word_of_int (swizzle_repeat t)))"

text \<open>
  An address lies among the \<open>N\<close> bytes from byte \<open>B\<close> and is a multiple of the
  element size.
\<close>

definition in_bytes :: "int \<Rightarrow> int \<Rightarrow> int \<Rightarrow> 'a::len word \<Rightarrow> bool" where
  "in_bytes B N sz a \<longleftrightarrow> B \<le> uint a \<and> uint a < B + N \<and> sz dvd uint a"

text \<open>A load followed by a store of the loaded fragment to the same tile.\<close>

definition store_after_load ::
  "('a::len word, 'u::plus, 't) env \<Rightarrow> rt \<Rightarrow> 'a word shared_tile \<Rightarrow> ('a word \<Rightarrow> 'u)
     \<Rightarrow> 't regs \<Rightarrow> static_error + ('a word \<Rightarrow> 'u)" where
  "store_after_load E RT S mem dst =
     (case load E RT S mem dst of
        Inl e \<Rightarrow> Inl e
      | Inr regs \<Rightarrow> store E RT S regs mem)"

text \<open>
  What the round trip asks of the parts taken from outside: converting a packed value
  to the register type and back gives the value again, and a grouped matrix store
  that is handed, at the addresses of a grouped matrix load, the registers that load
  delivered to the lanes of the warp leaves memory as it was.
\<close>

definition conversion_exact :: "('w, 'u, 't) env \<Rightarrow> bool" where
  "conversion_exact E \<longleftrightarrow> (\<forall>p. to_shared E (to_reg E p) = p)"

definition grouped_store_undoes_load :: "('w, 'u, 't) env \<Rightarrow> bool" where
  "grouped_store_undoes_load E \<longleftrightarrow>
     (\<forall>m a v. (\<forall>l \<in> set lanes. v l = ldsm4 E m a l) \<longrightarrow> stsm4 E m a v = m)
     \<and> (\<forall>m a v. (\<forall>l \<in> set lanes. v l = ldsm4t E m a l) \<longrightarrow> stsm4t E m a v = m)"

text \<open>
  Modelled from the spec: the grouped load and store wrappers \<open>move<U2>::ldsm4\<close>,
  \<open>ldsm4t\<close>, \<open>stsm4\<close> and \<open>stsm4t\<close> of \<open>util.cuh\<close>, which is not among the sources
  (the spec lists them as hardware wrappers for grouped load and store and says no
  more).  They are given here as the \<open>ldmatrix\<close> and \<open>stmatrix\<close> instructions on four
  8 by 8 matrices of 16-bit elements: lane \<open>8 * k + r\<close> supplies the address of row
  \<open>r\<close> of matrix \<open>k\<close>, and lane \<open>l\<close> holds of every matrix the two elements at row
  \<open>l / 4\<close>, columns \<open>2 * (l % 4)\<close> and \<open>2 * (l % 4) + 1\<close> (transposed: rows
  \<open>2 * (l % 4)\<close> and \<open>2 * (l % 4) + 1\<close>, column \<open>l / 4\<close>).  Where a grouped load is
  followed by the grouped store, only that the store undoes the load is asked of the
  wrappers, and this instance shows that it can be met; the instructions themselves
  are used where a grouped transfer is compared with single stores or adds.
\<close>

definition ldmatrix_x4 :: "('a::len word \<Rightarrow> 'u) \<Rightarrow> (int \<Rightarrow> 'a word) \<Rightarrow> int \<Rightarrow> 'u packed4" where
  "ldmatrix_x4 mem addr l =
     (let q = l sdiv 4; off = word_of_int (4 * (l smod 4)) in
      ((mem (addr q + off), mem (addr q + off + 2)),
       (mem (addr (8 + q) + off), mem (addr (8 + q) + off + 2)),
       (mem (addr (16 + q) + off), mem (addr (16 + q) + off + 2)),
       (mem (addr (24 + q) + off), mem (addr (24 + q) + off + 2))))"

definition stmatrix_x4_writes ::
  "(int \<Rightarrow> 'a::len word) \<Rightarrow> (int \<Rightarrow> 'u packed4) \<Rightarrow> ('a word \<times> 'u) list" where
  "stmatrix_x4_writes addr vals =
     concat (map (\<lambda>l.
       (let q = l sdiv 4; off = word_of_int (4 * (l smod 4));
            v0 = fst (vals l); v1 = fst (snd (vals l));
            v2 = fst (snd (snd (vals l))); v3 = snd (snd (snd (vals l)))
        in [(addr q + off, fst v0), (addr q + off + 2, snd v0),
            (addr (8 + q) + off, fst v1), (addr (8 + q) + off + 2, snd v1),
            (addr (16 + q) + off, fst v2), (addr (16 + q) + off + 2, snd v2),
            (addr (24 + q) + off, fst v3), (addr (24 + q) + off + 2, snd v3)])) lanes)"

definition stmatrix_x4 ::
  "('a::len word \<Rightarrow> 'u) \<Rightarrow> (int \<Rightarrow> 'a word) \<Rightarrow> (int \<Rightarrow> 'u packed4) \<Rightarrow> ('a word \<Rightarrow> 'u)" where
  "stmatrix_x4 mem addr vals =
     fold (\<lambda>w m. m(fst w := snd w)) (stmatrix_x4_writes addr vals) mem"

definition ldmatrix_x4_trans :: "('a::len word \<Rightarrow> 'u) \<Rightarrow> (int \<Rightarrow> 'a word) \<Rightarrow> int \<Rightarrow> 'u packed4" where
  "ldmatrix_x4_trans mem addr l =
     (let q = 2 * (l smod 4); off = word_of_int (2 * (l sdiv 4)) in
      ((mem (addr q + off), mem (addr (q + 1) + off)),
       (mem (addr (8 + q) + off), mem (addr (8 + q + 1) + off)),
       (mem (addr (16 + q) + off), mem (addr (16 + q + 1) + off)),
       (mem (addr (24 + q) + off), mem (addr (24 + q + 1) + off))))"

definition stmatrix_x4_trans_writes ::
  "(int \<Rightarrow> 'a::len word) \<Rightarrow> (int \<Rightarrow> 'u packed4) \<Rightarrow> ('a word \<times> 'u) list" where
  "stmatrix_x4_trans_writes addr vals =
     concat (map (\<lambda>l.
       (let q = 2 * (l smod 4); off = word_of_int (2 * (l sdiv 4));
            v0 = fst (vals l); v1 = fst (snd (vals l));
            v2 = fst (snd (snd (vals l))); v3 = snd (snd (snd (vals l)))
        in [(addr q + off, fst v0), (addr (q + 1) + off, snd v0),
            (addr (8 + q) + off, fst v1), (addr (8 + q + 1) + off, snd v1),
            (addr (16 + q) + off, fst v2), (addr (16 + q + 1) + off, snd v2),
            (addr (24 + q) + off, fst v3), (addr (24 + q + 1) + off, snd v3)])) lanes)"

definition stmatrix_x4_trans ::
  "('a::len word \<Rightarrow> 'u) \<Rightarrow> (int \<Rightarrow> 'a word) \<Rightarrow> (int \<Rightarrow> 'u packed4) \<Rightarrow> ('a word \<Rightarrow> 'u)" where
  "stmatrix_x4_trans mem addr vals =
     fold (\<lambda>w m. m(fst w := snd w)) (stmatrix_x4_trans_writes addr vals) mem"

definition ptx_env :: "bool \<Rightarrow> ('a::len word, int, int) env" where
  "ptx_env hopper =
     \<lparr> ldsm4 = ldmatrix_x4, ldsm4t = ldmatrix_x4_trans,
       stsm4 = stmatrix_x4, stsm4t = stmatrix_x4_trans,
       to_reg = (\<lambda>p. p), to_shared = (\<lambda>p. p), KITTENS_HOPPER = hopper \<rparr>"

text \<open>
  The grouped loads are these instructions; and what the two-byte transfers of the
  build that is not Hopper need of the tile: it is valid, its data begin at a multiple of
  16 bytes, and a view starts at a column that is a multiple of 8.
\<close>

definition ptx_loads :: "('a::len word, 'u, 't) env \<Rightarrow> bool" where
  "ptx_loads E \<longleftrightarrow> ldsm4 E = ldmatrix_x4 \<and> ldsm4t E = ldmatrix_x4_trans"

definition two_byte_tile_ok :: "'a::len word shared_tile \<Rightarrow> bool" where
  "two_byte_tile_ok S \<longleftrightarrow>
     st_valid (st_type S) \<and> take_bit 4 (st_data S) = 0
     \<and> (case S of Root t d \<Rightarrow> True
                 | Subtile s \<Rightarrow> 0 \<le> col_offset s \<and> 8 dvd col_offset s)"

text \<open>An atomic add seen as the store to the same address of the same value.\<close>

fun as_store :: "('w, 'u) warp_op \<Rightarrow> ('w, 'u) warp_op" where
  "as_store (Adds a v) = Sts a v"
| "as_store (Sts a v) = Sts a v"
| "as_store (Stsm4 addr vals) = Stsm4 addr vals"
| "as_store (Stsm4t addr vals) = Stsm4t addr vals"

fun is_adds :: "('w, 'u) warp_op \<Rightarrow> bool" where
  "is_adds (Adds a v) = True"
| "is_adds (Sts a v) = False"
| "is_adds (Stsm4 addr vals) = False"
| "is_adds (Stsm4t addr vals) = False"

text \<open>
  The element writes of a warp operation: the address and the value of a single store
  or add, and for a grouped store the single stores of the \<open>stmatrix\<close> instruction
  above.  \<open>ptx_stores\<close> says that the grouped stores of the environment are these
  instructions.
\<close>

fun ptx_writes :: "('a::len word, 'u) warp_op \<Rightarrow> ('a word \<times> 'u) list" where
  "ptx_writes (Sts a v) = [(a, v)]"
| "ptx_writes (Adds a v) = [(a, v)]"
| "ptx_writes (Stsm4 addr vals) = stmatrix_x4_writes addr vals"
| "ptx_writes (Stsm4t addr vals) = stmatrix_x4_trans_writes addr vals"

definition ptx_stores :: "('a::len word, 'u, 't) env \<Rightarrow> bool" where
  "ptx_stores E \<longleftrightarrow> stsm4 E = stmatrix_x4 \<and> stsm4t E = stmatrix_x4_trans"

text \<open>
  The element writes of \<open>store\<close>, in the order of its two loops; memory after a list of
  writes has overwritten it; and the sum of the values that a list of writes carries to
  one address.
\<close>

definition store_writes ::
  "('a::len word, 'u, 't) env \<Rightarrow> rt \<Rightarrow> 'a word shared_tile \<Rightarrow> 't regs \<Rightarrow> ('a word \<times> 'u) list" where
  "store_writes E RT S src =
     concat (map (\<lambda>i. concat (map (\<lambda>j. concat (map ptx_writes (store_tile E RT S src i j)))
                                 [0..rt_width RT - 1]))
               [0..rt_height RT - 1])"

definition overwritten :: "('w \<times> 'u) list \<Rightarrow> ('w \<Rightarrow> 'u) \<Rightarrow> ('w \<Rightarrow> 'u)" where
  "overwritten ws mem = fold (\<lambda>w m. m(fst w := snd w)) ws mem"

definition added :: "('w \<times> 'u::comm_monoid_add) list \<Rightarrow> 'w \<Rightarrow> 'u" where
  "added ws a = sum_list (map snd (filter (\<lambda>w. fst w = a) ws))"

section \<open>Properties\<close>

subsection \<open>Truncating division\<close>

lemma sdiv_nonneg: "0 \<le> a \<Longrightarrow> 0 \<le> b \<Longrightarrow> a sdiv b = a div (b::int)"
  by (simp add: signed_divide_int_def sgn_if)

lemma smod_nonneg: "0 \<le> a \<Longrightarrow> 0 \<le> b \<Longrightarrow> a smod b = a mod (b::int)"
  by (simp add: signed_modulo_int_def sgn_if)

lemma smod_eq_0_iff: "a smod b = 0 \<longleftrightarrow> b dvd (a::int)"
proof -
  have "a smod b = 0 \<longleftrightarrow> \<bar>a\<bar> mod \<bar>b\<bar> = 0"
    by (cases "a = 0") (simp_all add: signed_modulo_int_def sgn_0_0)
  also have "\<dots> \<longleftrightarrow> \<bar>b\<bar> dvd \<bar>a\<bar>"
    by (simp only: dvd_eq_mod_eq_0)
  finally show ?thesis by simp
qed

lemma int_div_size_t_values:
  "int_div_size_t 128 1 = 128" "int_div_size_t 64 1 = 64" "int_div_size_t 32 1 = 32"
  "int_div_size_t 128 2 = 64" "int_div_size_t 64 2 = 32" "int_div_size_t 32 2 = 16"
  "int_div_size_t 128 4 = 32" "int_div_size_t 64 4 = 16"
  by (simp_all add: int_div_size_t_def)

subsection \<open>The swizzle period\<close>

text \<open>
  C4, as stated, fails in its last part: an element size other than 1, 2 and 4 is not
  rejected.  The descriptor of a tile of 16 by 16 elements of 8 bytes, of a type that
  is 1-packed, passes the three static assertions; its period is \<open>-1\<close> and so is its
  \<open>subtile_cols\<close>; and \<open>load\<close> and \<open>store\<close> are instantiated on it.
\<close>

theorem other_element_width_not_rejected:
  "st_static_asserts \<lparr>sizeof_dtype = 8, packing_num = 1, rows = 16, cols = 16\<rparr>
   \<and> swizzle_bytes \<lparr>sizeof_dtype = 8, packing_num = 1, rows = 16, cols = 16\<rparr> = - 1
   \<and> subtile_cols \<lparr>sizeof_dtype = 8, packing_num = 1, rows = 16, cols = 16\<rparr> = - 1
   \<and> instantiates (load (ptx_env False)
         \<lparr>rt_height = 1, rt_width = 1, tile_size_row = 16, tile_size_col = 16,
           layout = rt_layout_col\<rparr>
         (Root \<lparr>sizeof_dtype = 8, packing_num = 1, rows = 16, cols = 16\<rparr> (0 :: 32 word))
         (\<lambda>a. 0) (\<lambda>l i j. []))
   \<and> instantiates (store (ptx_env False)
         \<lparr>rt_height = 1, rt_width = 1, tile_size_row = 16, tile_size_col = 16,
           layout = rt_layout_col\<rparr>
         (Root \<lparr>sizeof_dtype = 8, packing_num = 1, rows = 16, cols = 16\<rparr> (0 :: 32 word))
         (\<lambda>l i j. [(1, 1), (1, 1), (1, 1), (1, 1)]) (\<lambda>a. 0))"
  by (simp add: st_static_asserts_def swizzle_bytes_def subtile_cols_def int_div_size_t_def
      TILE_ROW_DIM_def TILE_COL_DIM_def instantiates_def load_def store_def
      st_height_def st_width_def)

text \<open>
  C4, amended.  The swizzle period of a tile is the one the specification tabulates
  from the element size and the width in base tiles (128, 64 or 32 bytes for one- and
  two-byte elements, 128 or 64 for four-byte elements); for any other element size it
  is \<open>-1\<close>.  It is computed from the descriptor, and a subtile takes the period of its
  parent.  The static assertions of the descriptor hold exactly when the extents are
  multiples of the base tile and the element type is 1-packed: they test neither the
  element size nor the period.
\<close>

theorem swizzle_bytes_table:
  "swizzle_bytes t =
     (case spec_swizzle_period (sizeof_dtype t) (underlying_width t) of
        Some p \<Rightarrow> p | None \<Rightarrow> - 1)
   \<and> st_subtile_swizzle_bytes s = swizzle_bytes (ST s)
   \<and> (st_static_asserts t \<longleftrightarrow>
        TILE_ROW_DIM (sizeof_dtype t) dvd rows t \<and> TILE_COL_DIM (sizeof_dtype t) dvd cols t
        \<and> packing_num t = 1)"
  by (simp add: swizzle_bytes_def spec_swizzle_period_def smod_eq_0_iff
      st_subtile_swizzle_bytes_def st_static_asserts_def)

subsection \<open>Subtile views\<close>

text \<open>
  C2.  The address a subtile view computes for a local coordinate is the address its
  parent computes for the coordinate shifted by the offsets of the view, and reading
  the view at \<open>(r, c)\<close> reads the parent at \<open>(r + row_offset, c + col_offset)\<close>: the
  view puts the parent's \<open>underlying_rows\<close> in the outer stride where the parent puts
  its own \<open>rows\<close>.
\<close>

theorem subtile_reads_parent:
  "st_subtile_idx s ptr (r, c) = idx (ST s) ptr (r + row_offset s, c + col_offset s) \<and>
   st_subtile_at_coord s mem (r, c)
     = st_at_coord (ST s) mem (data s) (r + row_offset s, c + col_offset s)"
  unfolding st_subtile_at_coord_def st_at_coord_def st_subtile_idx_def idx_def underlying_rows_def
  by (simp only: fst_conv snd_conv)

text \<open>
  C10.  A view built by the constructor has \<open>row_offset = rowcol.x * rows\<close> and
  \<open>col_offset = rowcol.y * cols\<close>; as its static assertions make both extents multiples
  of the base tile, both offsets are multiples of the base tile, whatever \<open>rowcol\<close> is.
\<close>

theorem st_subtile_ctor_aligned:
  assumes "st_subtile_static_asserts (st_subtile_ctor src n_rows n_cols d rowcol)"
  shows "row_offset (st_subtile_ctor src n_rows n_cols d rowcol) = fst rowcol * n_rows
       \<and> col_offset (st_subtile_ctor src n_rows n_cols d rowcol) = snd rowcol * n_cols
       \<and> TILE_ROW_DIM (sizeof_dtype src) dvd row_offset (st_subtile_ctor src n_rows n_cols d rowcol)
       \<and> TILE_COL_DIM (sizeof_dtype src) dvd col_offset (st_subtile_ctor src n_rows n_cols d rowcol)"
  using assms
  by (simp add: st_subtile_static_asserts_def st_subtile_ctor_def smod_eq_0_iff)

theorem st_subtile_ctor_aligned_witness:
  "st_subtile_static_asserts
     (st_subtile_ctor \<lparr>sizeof_dtype = 2, packing_num = 1, rows = 64, cols = 64\<rparr> 16 32 (0::32 word) (3, 1))
   \<and> row_offset (st_subtile_ctor \<lparr>sizeof_dtype = 2, packing_num = 1, rows = 64, cols = 64\<rparr> 16 32 (0::32 word) (3, 1)) = 48
   \<and> col_offset (st_subtile_ctor \<lparr>sizeof_dtype = 2, packing_num = 1, rows = 64, cols = 64\<rparr> 16 32 (0::32 word) (3, 1)) = 32"
proof -
  have h: "st_subtile_static_asserts
     (st_subtile_ctor \<lparr>sizeof_dtype = 2, packing_num = 1, rows = 64, cols = 64\<rparr> 16 32 (0::32 word) (3, 1))"
    by (simp add: st_subtile_static_asserts_def st_subtile_ctor_def smod_eq_0_iff
        underlying_rows_def underlying_cols_def TILE_ROW_DIM_def TILE_COL_DIM_def)
  from st_subtile_ctor_aligned [OF h] h show ?thesis by simp
qed

subsection \<open>Valid tiles\<close>

lemma st_valid_period:
  assumes "st_valid t"
  obtains k where "5 \<le> k" "k \<le> 7" "swizzle_bytes t = 2 ^ k"
proof -
  from assms have "swizzle_bytes t = 2 ^ 5 \<or> swizzle_bytes t = 2 ^ 6 \<or> swizzle_bytes t = 2 ^ 7"
    by (auto simp add: st_valid_def swizzle_bytes_def)
  then show thesis using that [of 5] that [of 6] that [of 7] by auto
qed

lemma st_valid_subtile_cols:
  assumes "st_valid t"
  shows "sizeof_dtype t * subtile_cols t = swizzle_bytes t"
    and "0 < subtile_cols t"
  using assms
  by (auto simp add: st_valid_def swizzle_bytes_def subtile_cols_def int_div_size_t_values sdiv_nonneg)

lemma st_valid_width:
  assumes "st_valid t"
  shows "cols t = TILE_COL_DIM (sizeof_dtype t) * underlying_width t"
proof -
  from assms have d: "TILE_COL_DIM (sizeof_dtype t) dvd cols t" and p: "0 < cols t"
    by (simp_all add: st_valid_def st_static_asserts_def smod_eq_0_iff)
  have "0 \<le> TILE_COL_DIM (sizeof_dtype t)" by (simp add: TILE_COL_DIM_def)
  with p have "cols t sdiv TILE_COL_DIM (sizeof_dtype t) = cols t div TILE_COL_DIM (sizeof_dtype t)"
    by (simp add: sdiv_nonneg)
  with d show ?thesis by (simp add: underlying_width_def)
qed

lemma st_valid_dvd_cols:
  assumes "st_valid t"
  shows "subtile_cols t dvd cols t"
proof -
  have c: "cols t = TILE_COL_DIM (sizeof_dtype t) * underlying_width t"
    by (rule st_valid_width [OF assms])
  from assms have sz: "sizeof_dtype t = 1 \<or> sizeof_dtype t = 2 \<or> sizeof_dtype t = 4"
    by (simp add: st_valid_def)
  then show ?thesis
  proof (elim disjE)
    assume s: "sizeof_dtype t = 1"
    show ?thesis
      by (subst c) (auto simp add: s subtile_cols_def int_div_size_t_values swizzle_bytes_def smod_eq_0_iff
          TILE_COL_DIM_def elim: dvdE)
  next
    assume s: "sizeof_dtype t = 2"
    show ?thesis
      by (subst c) (auto simp add: s subtile_cols_def int_div_size_t_values swizzle_bytes_def smod_eq_0_iff
          TILE_COL_DIM_def sdiv_nonneg elim: dvdE)
  next
    assume s: "sizeof_dtype t = 4"
    show ?thesis
      by (subst c) (auto simp add: s subtile_cols_def int_div_size_t_values swizzle_bytes_def smod_eq_0_iff
          TILE_COL_DIM_def sdiv_nonneg elim: dvdE)
  qed
qed

subsection \<open>The XOR step\<close>

lemma bit_swz:
  "bit (swz k a) n \<longleftrightarrow> (bit a n \<noteq> (4 \<le> n \<and> n < k \<and> bit a (n + 3)))"
  by (auto simp add: swz_def bit_simps ac_simps dest: bit_imp_le_length)

lemma swz_involution: "k \<le> 7 \<Longrightarrow> swz k (swz k a) = a"
  by (rule bit_word_eqI) (auto simp add: bit_swz)

lemma drop_bit_swz: "k \<le> 7 \<Longrightarrow> drop_bit k (swz k a) = drop_bit k a"
  by (rule bit_word_eqI) (auto simp add: bit_swz bit_simps)

lemma take_bit_swz: "take_bit 4 (swz k a) = take_bit 4 a"
  by (rule bit_word_eqI) (auto simp add: bit_swz bit_simps)

lemma swizzle_term_below_period:
  "k \<le> 7 \<Longrightarrow> take_bit k (push_bit 4 (drop_bit 7 (take_bit (k + 3) a)))
     = push_bit 4 (drop_bit 7 (take_bit (k + 3) (a::'a::len word)))"
  by (rule bit_word_eqI) (auto simp add: bit_simps)

lemma idx_split: "idx t ptr coord = idx_addr t ptr coord XOR idx_swizzle t ptr coord"
  unfolding idx_def idx_addr_def idx_swizzle_def by (simp only: Let_def)

lemma idx_swizzle_pow:
  assumes "swizzle_bytes t = 2 ^ k"
  shows "idx_swizzle t ptr coord
           = push_bit 4 (drop_bit 7 (take_bit (k + 3) (idx_addr t ptr coord)))"
proof -
  have "swizzle_repeat t = 2 ^ (k + 3)"
    by (simp add: swizzle_repeat_def assms power_add)
  then have "(word_of_int (swizzle_repeat t) :: 'a word) = 2 ^ (k + 3)"
    by simp
  then show ?thesis
    by (simp only: idx_swizzle_def take_bit_eq_mod)
qed

lemma idx_swz:
  assumes "swizzle_bytes t = 2 ^ k"
  shows "idx t ptr coord = swz k (idx_addr t ptr coord)"
  by (simp only: idx_split idx_swizzle_pow [OF assms] swz_def)

lemma take_bit_add_push_bit_int:
  assumes "m \<le> k"
  shows "take_bit m (a + push_bit k b) = take_bit m (a::int)"
proof -
  from assms obtain d where "k = m + d" using le_Suc_ex by blast
  then have "push_bit k b = 2 ^ m * (2 ^ d * b)"
    by (simp add: push_bit_eq_mult power_add)
  then show ?thesis by (simp add: take_bit_eq_mod)
qed

lemma take_bit_add_push_bit:
  "take_bit k (a + push_bit k b) = take_bit k (a::'a::len word)"
  by transfer (simp add: take_bit_add_push_bit_int)

lemma take_bit_add_multiple:
  "take_bit k (a + 2 ^ k * b) = take_bit k (a::'a::len word)"
  using take_bit_add_push_bit [of k a b] by (simp add: push_bit_eq_mult mult.commute)

lemma xor_self_cancel: "(x::'a::len word) XOR y = x \<Longrightarrow> y = 0"
  by (metis bit.xor_self xor.assoc xor.left_neutral)

lemma raw_minus_linear:
  assumes "st_valid t" and "swizzle_bytes t = 2 ^ k"
  shows "\<exists>K. sizeof_dtype t * (r * cols t + c)
           = sizeof_dtype t * ((c sdiv subtile_cols t) * rows t * subtile_cols t
                + r * subtile_cols t + c smod subtile_cols t) + 2 ^ k * K"
proof -
  from st_valid_dvd_cols [OF assms(1)] obtain m where m: "cols t = subtile_cols t * m" ..
  have p: "sizeof_dtype t * subtile_cols t = 2 ^ k"
    using st_valid_subtile_cols(1) [OF assms(1)] assms(2) by simp
  have c: "c = (c sdiv subtile_cols t) * subtile_cols t + c smod subtile_cols t"
    by (simp add: sdiv_mult_smod_eq)
  have "sizeof_dtype t * (r * cols t + c)
      = sizeof_dtype t * ((c sdiv subtile_cols t) * rows t * subtile_cols t
                + r * subtile_cols t + c smod subtile_cols t)
        + (sizeof_dtype t * subtile_cols t)
            * (r * m - (c sdiv subtile_cols t) * rows t - r + c sdiv subtile_cols t)"
    by (subst c, subst m) (simp add: algebra_simps)
  then show ?thesis unfolding p by blast
qed


lemma same_location_swizzle_zero:
  assumes v: "st_valid t"
    and e: "idx t ptr (r, c) = ptr + word_of_int (sizeof_dtype t * (r * cols t + c))"
  shows "idx_swizzle t ptr (r, c) = 0"
proof -
  from st_valid_period [OF v] obtain k where k: "k \<le> 7" "swizzle_bytes t = 2 ^ k"
    by blast
  let ?A = "idx_addr t ptr (r, c)" and ?s = "idx_swizzle t ptr (r, c)"
  from raw_minus_linear [OF v k(2), of r c] obtain K where
    "sizeof_dtype t * (r * cols t + c)
       = sizeof_dtype t * ((c sdiv subtile_cols t) * rows t * subtile_cols t
            + r * subtile_cols t + c smod subtile_cols t) + 2 ^ k * K" ..
  then have "ptr + word_of_int (sizeof_dtype t * (r * cols t + c)) = ?A + 2 ^ k * word_of_int K"
    by (simp add: idx_addr_def)
  with e have "?A XOR ?s = ?A + 2 ^ k * word_of_int K"
    by (simp only: idx_split)
  then have "take_bit k (?A XOR ?s) = take_bit k ?A"
    by (simp only: take_bit_add_multiple)
  then have "take_bit k ?A XOR take_bit k ?s = take_bit k ?A"
    by (simp only: take_bit_xor)
  then have "take_bit k ?s = 0"
    by (rule xor_self_cancel)
  moreover have "take_bit k ?s = ?s"
    unfolding idx_swizzle_pow [OF k(2)] by (rule swizzle_term_below_period [OF k(1)])
  ultimately show ?thesis by simp
qed

subsection \<open>Blocks of coordinates and ranges of addresses\<close>

lemma div_less_of_less_mult:
  assumes "0 < (w::int)" "e < h * w"
  shows "e div w < h"
proof (rule ccontr)
  assume "\<not> e div w < h"
  then have "h \<le> e div w" by simp
  then have "h * w \<le> (e div w) * w" using assms(1) by (simp add: mult_right_mono)
  moreover have "(e div w) * w + e mod w = e" by simp
  moreover have "0 \<le> e mod w" using assms(1) by simp
  ultimately show False using assms(2) by linarith
qed

lemma grid_image:
  assumes "0 < (w::int)"
  shows "(\<lambda>(r, c). (r - r0) * w + (c - c0)) ` ({r0..<r0 + h} \<times> {c0..<c0 + w}) = {0..<h * w}"
proof (intro equalityI subsetI)
  fix e assume "e \<in> (\<lambda>(r, c). (r - r0) * w + (c - c0)) ` ({r0..<r0 + h} \<times> {c0..<c0 + w})"
  then obtain r c where e: "e = (r - r0) * w + (c - c0)"
    and r: "r0 \<le> r" "r < r0 + h" and c: "c0 \<le> c" "c < c0 + w" by auto
  have "0 \<le> (r - r0) * w" using r assms by simp
  moreover have "(r - r0 + 1) * w \<le> h * w" using r assms by (intro mult_right_mono) auto
  then have "(r - r0) * w + w \<le> h * w" by (simp add: algebra_simps)
  ultimately show "e \<in> {0..<h * w}" using e c by simp
next
  fix e assume "e \<in> {0..<h * w}"
  then have e: "0 \<le> e" "e < h * w" by auto
  have 1: "e div w < h" by (rule div_less_of_less_mult [OF assms e(2)])
  have 2: "0 \<le> e div w" using e(1) assms by (simp add: pos_imp_zdiv_nonneg_iff)
  have 3: "0 \<le> e mod w" "e mod w < w" using assms by simp_all
  have "(r0 + e div w, c0 + e mod w) \<in> {r0..<r0 + h} \<times> {c0..<c0 + w}"
    using 1 2 3 by simp
  moreover have "(\<lambda>(r, c). (r - r0) * w + (c - c0)) (r0 + e div w, c0 + e mod w) = e"
    by simp
  ultimately show "e \<in> (\<lambda>(r, c). (r - r0) * w + (c - c0)) ` ({r0..<r0 + h} \<times> {c0..<c0 + w})"
    by (metis (no_types, lifting) image_eqI)
qed

lemma grid_inj:
  assumes "0 < (w::int)"
  shows "inj_on (\<lambda>(r, c). (r - r0) * w + (c - c0)) ({r0..<r0 + h} \<times> {c0..<c0 + w})"
proof (rule inj_onI, clarify)
  fix r c r' c'
  assume c: "c \<in> {c0..<c0 + w}" and c': "c' \<in> {c0..<c0 + w}"
    and eq: "(r - r0) * w + (c - c0) = (r' - r0) * w + (c' - c0)"
  have "((r - r0) * w + (c - c0)) div w = r - r0" using c assms by simp
  moreover have "((r' - r0) * w + (c' - c0)) div w = r' - r0" using c' assms by simp
  ultimately have "r = r'" using eq by simp
  with eq show "r = r' \<and> c = c'" by simp
qed

lemma mult_le_iff_le_div:
  assumes "0 < (m::int)"
  shows "m * q \<le> x \<longleftrightarrow> q \<le> x div m"
proof
  assume "m * q \<le> x"
  then have "(m * q) div m \<le> x div m" using assms by (rule zdiv_mono1)
  then show "q \<le> x div m" using assms by simp
next
  assume "q \<le> x div m"
  then have "m * q \<le> m * (x div m)" using assms by (simp add: mult_left_mono)
  moreover have "m * (x div m) + x mod m = x" by simp
  moreover have "0 \<le> x mod m" using assms by simp
  ultimately show "m * q \<le> x" by linarith
qed

lemma uint_swz_div: "k \<le> 7 \<Longrightarrow> uint (swz k a) div 2 ^ k = uint a div 2 ^ k"
proof -
  assume "k \<le> 7"
  then have "uint (drop_bit k (swz k a)) = uint (drop_bit k a)"
    by (simp only: drop_bit_swz)
  moreover have "uint (drop_bit k w) = uint w div 2 ^ k" for w :: "'a word"
    by (simp add: unsigned_drop_bit_eq drop_bit_int_def take_bit_int_eq_self uint_lt2p)
  ultimately show ?thesis by simp
qed

lemma uint_swz_mod: "uint (swz k a) mod 16 = uint a mod 16"
proof -
  have "uint (take_bit 4 (swz k a)) = uint (take_bit 4 a)"
    by (simp only: take_bit_swz)
  moreover have "uint (take_bit 4 w) = uint w mod 16" for w :: "'a word"
    by (simp only: unsigned_take_bit_eq) (simp add: take_bit_eq_mod)
  ultimately show ?thesis by simp
qed

lemma in_bytes_swz:
  assumes k: "k \<le> 7" and B: "B = 2 ^ k * q" and sz: "sz dvd 16"
  shows "in_bytes B (2 ^ k * h) sz (swz k a) \<longleftrightarrow> in_bytes B (2 ^ k * h) sz a"
proof -
  have m: "0 < (2::int) ^ k" by simp
  have d: "uint (swz k a) div 2 ^ k = uint a div 2 ^ k" by (rule uint_swz_div [OF k])
  have 1: "B \<le> uint (swz k a) \<longleftrightarrow> B \<le> uint a"
    unfolding B mult_le_iff_le_div [OF m] d ..
  have "2 ^ k * (q + h) \<le> uint (swz k a) \<longleftrightarrow> 2 ^ k * (q + h) \<le> uint a"
    unfolding mult_le_iff_le_div [OF m] d ..
  then have 2: "uint (swz k a) < B + 2 ^ k * h \<longleftrightarrow> uint a < B + 2 ^ k * h"
    unfolding B by (simp add: algebra_simps not_le [symmetric])
  have "sz dvd uint (swz k a) mod 16 \<longleftrightarrow> sz dvd uint a mod 16"
    by (simp only: uint_swz_mod)
  then have 3: "sz dvd uint (swz k a) \<longleftrightarrow> sz dvd uint a"
    by (simp only: dvd_mod_iff [OF sz])
  show ?thesis unfolding in_bytes_def using 1 2 3 by simp
qed

lemma slots_iff:
  fixes base :: "'a::len word"
  assumes sz: "0 < sz" and szB: "sz dvd uint base"
    and nw: "uint base + sz * n \<le> 2 ^ LENGTH('a)"
  shows "a \<in> slots base sz n \<longleftrightarrow> in_bytes (uint base) (sz * n) sz a"
proof
  assume "a \<in> slots base sz n"
  then obtain e where e: "0 \<le> e" "e < n" and a: "a = base + word_of_int (sz * e)"
    by (auto simp add: slots_def)
  have b: "0 \<le> sz * e" "sz * e < sz * n" using e sz by simp_all
  have "0 \<le> uint base" by simp
  with b nw have lt: "sz * e < 2 ^ LENGTH('a)" by linarith
  have u: "uint (word_of_int (sz * e) :: 'a word) = sz * e"
    by (simp only: uint_word_of_int_eq take_bit_int_eq_self [OF b(1) lt])
  have "uint base + uint (word_of_int (sz * e) :: 'a word) < 2 ^ LENGTH('a)"
    using u b nw by linarith
  then have "uint (base + word_of_int (sz * e)) = uint base + uint (word_of_int (sz * e) :: 'a word)"
    by (rule uint_add_lem [THEN iffD1])
  then have "uint a = uint base + sz * e"
    by (simp only: a u)
  then show "in_bytes (uint base) (sz * n) sz a"
    using b szB by (simp add: in_bytes_def)
next
  assume "in_bytes (uint base) (sz * n) sz a"
  then have r: "uint base \<le> uint a" "uint a < uint base + sz * n" "sz dvd uint a"
    by (simp_all add: in_bytes_def)
  from r(3) szB have "sz dvd uint a - uint base" by (rule dvd_diff)
  then obtain e where e: "uint a - uint base = sz * e" ..
  have "0 \<le> sz * e" "sz * e < sz * n" using r e by linarith+
  then have e': "0 \<le> e" "e < n" using sz
    by (simp_all add: zero_le_mult_iff)
  have "uint a = uint base + sz * e"
    using e by simp
  then have "word_of_int (uint a) = (word_of_int (uint base + sz * e) :: 'a word)"
    by simp
  then have "a = base + word_of_int (sz * e)"
    by (simp only: word_of_int_uint of_int_add)
  with e' show "a \<in> slots base sz n" by (auto simp add: slots_def)
qed

lemma xor_swizzle_swz:
  assumes "swizzle_bytes t = 2 ^ k"
  shows "xor_swizzle t = (swz k :: 'a::len word \<Rightarrow> 'a word)"
proof
  fix a :: "'a word"
  have "swizzle_repeat t = 2 ^ (k + 3)"
    by (simp add: swizzle_repeat_def assms power_add)
  then have "(word_of_int (swizzle_repeat t) :: 'a word) = 2 ^ (k + 3)"
    by simp
  then show "xor_swizzle t a = swz k a"
    by (simp only: xor_swizzle_def swz_def take_bit_eq_mod)
qed

lemma swizzle_block_alt:
  "swizzle_block t bi bj =
     {16 * bi ..< 16 * bi + 16} \<times> {subtile_cols t * bj ..< subtile_cols t * bj + subtile_cols t}"
  by (simp add: swizzle_block_def TILE_ROW_DIM_def algebra_simps)

lemma block_addr:
  assumes v: "st_valid t" and bj: "0 \<le> bj" and rc: "(r, c) \<in> swizzle_block t bi bj"
  shows "idx_addr t ptr (r, c)
       = (ptr + word_of_int (sizeof_dtype t * ((bj * rows t + 16 * bi) * subtile_cols t)))
         + word_of_int (sizeof_dtype t *
             ((r - 16 * bi) * subtile_cols t + (c - subtile_cols t * bj)))"
proof -
  let ?sc = "subtile_cols t"
  have sc: "0 < ?sc" by (rule st_valid_subtile_cols(2) [OF v])
  from rc have c: "?sc * bj \<le> c" "c < ?sc * bj + ?sc"
    by (simp_all add: swizzle_block_alt)
  have "0 \<le> ?sc * bj" using sc bj by simp
  with c have c0: "0 \<le> c" by linarith
  have dm: "c div ?sc = bj" "c mod ?sc = c - ?sc * bj"
    using c by (simp_all add: int_div_pos_eq [of c ?sc bj "c - ?sc * bj"]
        int_mod_pos_eq [of c ?sc bj "c - ?sc * bj"])
  have sd: "c sdiv ?sc = bj" "c smod ?sc = c - ?sc * bj"
    using c0 sc dm by (simp_all add: sdiv_nonneg smod_nonneg)
  have "sizeof_dtype t * (bj * rows t * ?sc + r * ?sc + (c - ?sc * bj))
      = sizeof_dtype t * ((bj * rows t + 16 * bi) * ?sc)
        + sizeof_dtype t * ((r - 16 * bi) * ?sc + (c - ?sc * bj))"
    by (simp add: algebra_simps)
  then show ?thesis
    unfolding idx_addr_def fst_conv snd_conv sd
    by (simp only: of_int_add add.assoc)
qed

lemma idx_addr_image:
  assumes v: "st_valid t" and bj: "0 \<le> bj"
  shows "idx_addr t ptr ` swizzle_block t bi bj
       = slots (ptr + word_of_int (sizeof_dtype t * ((bj * rows t + 16 * bi) * subtile_cols t)))
           (sizeof_dtype t) (16 * subtile_cols t)"
proof -
  let ?sc = "subtile_cols t"
  let ?base = "ptr + word_of_int (sizeof_dtype t * ((bj * rows t + 16 * bi) * ?sc))"
  let ?g = "\<lambda>(r, c). (r - 16 * bi) * ?sc + (c - ?sc * bj)"
  have sc: "0 < ?sc" by (rule st_valid_subtile_cols(2) [OF v])
  have "idx_addr t ptr ` swizzle_block t bi bj
      = (\<lambda>rc. ?base + word_of_int (sizeof_dtype t * ?g rc)) ` swizzle_block t bi bj"
    by (rule image_cong [OF refl]) (auto simp add: block_addr [OF v bj])
  also have "\<dots> = (\<lambda>e. ?base + word_of_int (sizeof_dtype t * e)) ` (?g ` swizzle_block t bi bj)"
    by (simp only: image_image)
  also have "?g ` swizzle_block t bi bj = {0..<16 * ?sc}"
    unfolding swizzle_block_alt by (rule grid_image [OF sc])
  finally show ?thesis by (simp only: slots_def)
qed

lemma st_valid_height:
  assumes "st_valid t"
  shows "rows t = 16 * height t"
proof -
  from assms have d: "16 dvd rows t" and p: "0 < rows t"
    by (simp_all add: st_valid_def st_static_asserts_def smod_eq_0_iff TILE_ROW_DIM_def)
  from p have "rows t sdiv 16 = rows t div 16" by (simp add: sdiv_nonneg)
  with d show ?thesis by (simp add: height_def TILE_ROW_DIM_def)
qed

lemma st_valid_sizeof:
  assumes "st_valid t"
  shows "0 < sizeof_dtype t" and "sizeof_dtype t dvd 16"
  using assms by (auto simp add: st_valid_def)

lemma aligned_uint:
  fixes ptr :: "'a::len word"
  assumes "ptr mod word_of_int (2 ^ k) = 0"
  shows "2 ^ k dvd uint ptr"
proof -
  from assms have "take_bit k ptr = 0" by (simp add: take_bit_eq_mod)
  then have "uint (take_bit k ptr) = 0" by simp
  then have "take_bit k (uint ptr) = 0" by (simp only: unsigned_take_bit_eq)
  then show ?thesis by (simp add: take_bit_eq_mod dvd_eq_mod_eq_0)
qed

lemma block_within_tile:
  assumes v: "st_valid t"
    and bi: "0 \<le> bi" "bi < height t"
    and bj: "0 \<le> bj" "subtile_cols t * (bj + 1) \<le> cols t"
  shows "0 \<le> (bj * rows t + 16 * bi) * subtile_cols t"
    and "(bj * rows t + 16 * bi) * subtile_cols t + 16 * subtile_cols t \<le> rows t * cols t"
proof -
  let ?sc = "subtile_cols t"
  have sc: "0 < ?sc" by (rule st_valid_subtile_cols(2) [OF v])
  have r: "rows t = 16 * height t" by (rule st_valid_height [OF v])
  have rp: "0 < rows t" using v by (simp add: st_valid_def)
  have "0 \<le> bj * rows t" using bj(1) rp by simp
  then have "0 \<le> bj * rows t + 16 * bi" using bi(1) by simp
  then show "0 \<le> (bj * rows t + 16 * bi) * ?sc" using sc by simp
  have "16 * bi + 16 \<le> rows t" using bi(2) r by simp
  then have "bj * rows t + 16 * bi + 16 \<le> rows t * (bj + 1)" by (simp add: algebra_simps)
  then have "(bj * rows t + 16 * bi + 16) * ?sc \<le> rows t * (bj + 1) * ?sc"
    using sc by (simp add: mult_right_mono)
  also have "\<dots> = rows t * (?sc * (bj + 1))" by (simp add: algebra_simps)
  also have "\<dots> \<le> rows t * cols t" using bj(2) rp by (simp add: mult_left_mono)
  finally show "(bj * rows t + 16 * bi) * ?sc + 16 * ?sc \<le> rows t * cols t"
    by (simp add: algebra_simps)
qed

lemma block_base:
  fixes ptr :: "'a::len word"
  assumes v: "st_valid t" and k: "swizzle_bytes t = 2 ^ k"
    and al: "ptr mod word_of_int (swizzle_bytes t) = 0"
    and nw: "uint ptr + sizeof_dtype t * (rows t * cols t) \<le> 2 ^ LENGTH('a)"
    and bi: "0 \<le> bi" "bi < height t"
    and bj: "0 \<le> bj" "subtile_cols t * (bj + 1) \<le> cols t"
  defines "e0 \<equiv> (bj * rows t + 16 * bi) * subtile_cols t"
  defines "base \<equiv> ptr + word_of_int (sizeof_dtype t * e0)"
  shows "uint base = uint ptr + sizeof_dtype t * e0"
    and "\<exists>q. uint base = 2 ^ k * q"
    and "uint base + sizeof_dtype t * (16 * subtile_cols t) \<le> 2 ^ LENGTH('a)"
proof -
  let ?sz = "sizeof_dtype t" and ?sc = "subtile_cols t"
  have sz: "0 < ?sz" by (rule st_valid_sizeof(1) [OF v])
  have p: "?sz * ?sc = 2 ^ k" using st_valid_subtile_cols(1) [OF v] k by simp
  have e0: "0 \<le> e0" "e0 + 16 * ?sc \<le> rows t * cols t"
    unfolding e0_def by (rule block_within_tile [OF v bi bj])+
  have b: "0 \<le> ?sz * e0" using sz e0(1) by simp
  have "?sz * (e0 + 16 * ?sc) \<le> ?sz * (rows t * cols t)"
    using sz e0(2) by (simp only: mult_le_cancel_left_pos)
  then have le: "uint ptr + ?sz * e0 + ?sz * (16 * ?sc) \<le> 2 ^ LENGTH('a)"
    using nw by (simp add: algebra_simps)
  have sc: "0 < ?sc" by (rule st_valid_subtile_cols(2) [OF v])
  have "0 < ?sz * (16 * ?sc)" using sz sc by simp
  with le have lt: "uint ptr + ?sz * e0 < 2 ^ LENGTH('a)" by linarith
  have "0 \<le> uint ptr" by simp
  with lt have lt': "?sz * e0 < 2 ^ LENGTH('a)" by linarith
  have u: "uint (word_of_int (?sz * e0) :: 'a word) = ?sz * e0"
    by (simp only: uint_word_of_int_eq take_bit_int_eq_self [OF b lt'])
  have "uint ptr + uint (word_of_int (?sz * e0) :: 'a word) < 2 ^ LENGTH('a)"
    using u lt by simp
  then have "uint (ptr + word_of_int (?sz * e0)) = uint ptr + uint (word_of_int (?sz * e0) :: 'a word)"
    by (rule uint_add_lem [THEN iffD1])
  then show ub: "uint base = uint ptr + ?sz * e0"
    by (simp only: base_def u)
  from al k have "ptr mod word_of_int (2 ^ k) = 0" by simp
  then have "2 ^ k dvd uint ptr" by (rule aligned_uint)
  then obtain q1 where q1: "uint ptr = 2 ^ k * q1" ..
  have "?sz * e0 = 2 ^ k * (bj * rows t + 16 * bi)"
    unfolding e0_def p [symmetric] by (simp add: algebra_simps)
  with q1 ub have "uint base = 2 ^ k * (q1 + (bj * rows t + 16 * bi))"
    by (simp add: algebra_simps)
  then show "\<exists>q. uint base = 2 ^ k * q" ..
  from le ub show "uint base + ?sz * (16 * ?sc) \<le> 2 ^ LENGTH('a)" by simp
qed

lemma swz_image_slots:
  fixes base :: "'a::len word"
  assumes k: "k \<le> 7" and sz: "0 < sz" "sz dvd 16" and p: "sz * sc = 2 ^ k"
    and q: "uint base = 2 ^ k * q"
    and nw: "uint base + sz * (h * sc) \<le> 2 ^ LENGTH('a)"
  shows "swz k ` slots base sz (h * sc) = slots base sz (h * sc)"
proof -
  have d: "sz dvd uint base"
    unfolding q p [symmetric] by simp
  have n: "sz * (h * sc) = 2 ^ k * h"
    unfolding p [symmetric] by (simp add: algebra_simps)
  have mem: "a \<in> slots base sz (h * sc) \<longleftrightarrow> in_bytes (uint base) (2 ^ k * h) sz a" for a
    using slots_iff [OF sz(1) d nw] by (simp only: n)
  have inv: "swz k a \<in> slots base sz (h * sc) \<longleftrightarrow> a \<in> slots base sz (h * sc)" for a
    unfolding mem by (rule in_bytes_swz [OF k q sz(2)])
  show ?thesis
  proof (intro equalityI subsetI)
    fix a assume "a \<in> swz k ` slots base sz (h * sc)"
    then show "a \<in> slots base sz (h * sc)" using inv by auto
  next
    fix a assume "a \<in> slots base sz (h * sc)"
    then have "swz k a \<in> slots base sz (h * sc)" by (simp only: inv)
    moreover have "a = swz k (swz k a)" by (simp only: swz_involution [OF k])
    ultimately show "a \<in> swz k ` slots base sz (h * sc)" by (rule rev_image_eqI)
  qed
qed

lemma inj_swz: "k \<le> 7 \<Longrightarrow> inj (swz k)"
  by (rule inj_on_inverseI [where g = "swz k"]) (simp only: swz_involution)

lemma slot_inj:
  fixes base :: "'a::len word"
  assumes sz: "0 < sz" and nw: "sz * n \<le> 2 ^ LENGTH('a)"
  shows "inj_on (\<lambda>e. base + word_of_int (sz * e)) {0..<n}"
proof (rule inj_onI)
  fix x y assume x: "x \<in> {0..<n}" and y: "y \<in> {0..<n}"
    and eq: "base + word_of_int (sz * x) = base + word_of_int (sz * y)"
  have r: "0 \<le> sz * e \<and> sz * e < 2 ^ LENGTH('a)" if "e \<in> {0..<n}" for e
  proof -
    from that sz have "0 \<le> sz * e" "sz * e < sz * n" by simp_all
    with nw show ?thesis by linarith
  qed
  from eq have "(word_of_int (sz * x) :: 'a word) = word_of_int (sz * y)" by simp
  then have "take_bit LENGTH('a) (sz * x) = take_bit LENGTH('a) (sz * y)"
    by (simp only: word_of_int_eq_iff)
  then have "sz * x = sz * y"
    using r [OF x] r [OF y] by (simp add: take_bit_int_eq_self)
  then show "x = y" using sz by simp
qed

lemma idx_block_bijection:
  fixes ptr :: "'a::len word"
  assumes v: "st_valid t"
    and al: "ptr mod word_of_int (swizzle_bytes t) = 0"
    and nw: "uint ptr + sizeof_dtype t * (rows t * cols t) \<le> 2 ^ LENGTH('a)"
    and bi: "0 \<le> bi" "bi < height t"
    and bj: "0 \<le> bj" "subtile_cols t * (bj + 1) \<le> cols t"
  shows "bij_betw (idx t ptr) (swizzle_block t bi bj)
           (slots (ptr + word_of_int (sizeof_dtype t *
                      ((bj * rows t + 16 * bi) * subtile_cols t)))
              (sizeof_dtype t) (16 * subtile_cols t))"
    and "bij_betw (xor_swizzle t)
           (slots (ptr + word_of_int (sizeof_dtype t *
                      ((bj * rows t + 16 * bi) * subtile_cols t)))
              (sizeof_dtype t) (16 * subtile_cols t))
           (slots (ptr + word_of_int (sizeof_dtype t *
                      ((bj * rows t + 16 * bi) * subtile_cols t)))
              (sizeof_dtype t) (16 * subtile_cols t))"
proof -
  let ?sz = "sizeof_dtype t" and ?sc = "subtile_cols t"
  let ?base = "ptr + word_of_int (?sz * ((bj * rows t + 16 * bi) * ?sc))"
  let ?R = "slots ?base ?sz (16 * ?sc)"
  from st_valid_period [OF v] obtain k where k: "k \<le> 7" "swizzle_bytes t = 2 ^ k"
    by blast
  have sz: "0 < ?sz" "?sz dvd 16" by (rule st_valid_sizeof [OF v])+
  have sc: "0 < ?sc" by (rule st_valid_subtile_cols(2) [OF v])
  have p: "?sz * ?sc = 2 ^ k" using st_valid_subtile_cols(1) [OF v] k(2) by simp
  from block_base(2) [OF v k(2) al nw bi bj] obtain q where q: "uint ?base = 2 ^ k * q" ..
  have le: "uint ?base + ?sz * (16 * ?sc) \<le> 2 ^ LENGTH('a)"
    by (rule block_base(3) [OF v k(2) al nw bi bj])
  have img: "swz k ` ?R = ?R"
    by (rule swz_image_slots [OF k(1) sz p q le])
  have idx: "idx t ptr = swz k \<circ> idx_addr t ptr"
    by (rule ext) (simp only: idx_swz [OF k(2)] comp_def)
  have "idx t ptr ` swizzle_block t bi bj = swz k ` (idx_addr t ptr ` swizzle_block t bi bj)"
    by (simp only: idx image_comp)
  also have "\<dots> = ?R"
    by (simp only: idx_addr_image [OF v bj(1)] img)
  finally have image: "idx t ptr ` swizzle_block t bi bj = ?R" .
  have "0 \<le> uint ?base" by simp
  with le have "?sz * (16 * ?sc) \<le> 2 ^ LENGTH('a)" by linarith
  then have si: "inj_on (\<lambda>e. ?base + word_of_int (?sz * e)) {0..<16 * ?sc}"
    by (rule slot_inj [OF sz(1)])
  let ?g = "\<lambda>(r, c). (r - 16 * bi) * ?sc + (c - ?sc * bj)"
  have gi: "inj_on ?g (swizzle_block t bi bj)"
    unfolding swizzle_block_alt by (rule grid_inj [OF sc])
  have gim: "?g ` swizzle_block t bi bj = {0..<16 * ?sc}"
    unfolding swizzle_block_alt by (rule grid_image [OF sc])
  have ci: "inj_on ((\<lambda>e. ?base + word_of_int (?sz * e)) \<circ> ?g) (swizzle_block t bi bj)"
    by (rule comp_inj_on [OF gi]) (simp only: gim si)
  have eq: "idx_addr t ptr rc = ((\<lambda>e. ?base + word_of_int (?sz * e)) \<circ> ?g) rc"
    if "rc \<in> swizzle_block t bi bj" for rc
  proof (cases rc)
    case (Pair r c)
    with that have "(r, c) \<in> swizzle_block t bi bj" by simp
    then show ?thesis
      unfolding Pair comp_def prod.case by (rule block_addr [OF v bj(1)])
  qed
  have "inj_on (idx_addr t ptr) (swizzle_block t bi bj)
      \<longleftrightarrow> inj_on ((\<lambda>e. ?base + word_of_int (?sz * e)) \<circ> ?g) (swizzle_block t bi bj)"
    by (rule inj_on_cong) (rule eq)
  with ci have ai: "inj_on (idx_addr t ptr) (swizzle_block t bi bj)"
    by (rule iffD2 [rotated])
  have "inj_on (swz k \<circ> idx_addr t ptr) (swizzle_block t bi bj)"
    by (rule comp_inj_on [OF ai]) (rule inj_on_subset [OF inj_swz [OF k(1)] subset_UNIV])
  then have "inj_on (idx t ptr) (swizzle_block t bi bj)" by (simp only: idx)
  with image show "bij_betw (idx t ptr) (swizzle_block t bi bj) ?R"
    by (simp only: bij_betw_def)
  have "inj_on (swz k) ?R" by (rule inj_on_subset [OF inj_swz [OF k(1)] subset_UNIV])
  with img have "bij_betw (swz k) ?R ?R" by (simp only: bij_betw_def)
  then show "bij_betw (xor_swizzle t) ?R ?R" by (simp only: xor_swizzle_swz [OF k(2)])
qed

lemma idx_bf16_16x32:
  "idx \<lparr>sizeof_dtype = 2, packing_num = 1, rows = 16, cols = 32\<rparr> (0::32 word) (0, 0) = 0"
  "idx \<lparr>sizeof_dtype = 2, packing_num = 1, rows = 16, cols = 32\<rparr> (0::32 word) (15, 15) = 1006"
  by (simp_all add: idx_def subtile_cols_def int_div_size_t_values swizzle_bytes_def swizzle_repeat_def
      underlying_width_def TILE_COL_DIM_def signed_divide_int_def signed_modulo_int_def)

lemma block_is_quantum:
  assumes "st_valid t" and "odd (underlying_width t)"
  shows "swizzle_block t bi bj = quantum t bi bj"
proof -
  from assms(2) have "\<not> 2 dvd underlying_width t" "\<not> 4 dvd underlying_width t"
    by auto
  with assms(1) have "subtile_cols t = TILE_COL_DIM (sizeof_dtype t)"
    by (auto simp add: st_valid_def subtile_cols_def int_div_size_t_values swizzle_bytes_def smod_eq_0_iff
        TILE_COL_DIM_def sdiv_nonneg)
  then show ?thesis by (simp add: swizzle_block_def quantum_def)
qed

lemma slots_spread:
  fixes base :: "32 word"
  assumes x: "x \<in> slots base 2 256" and y: "y \<in> slots base 2 256"
  shows "uint (y - x) \<le> 510 \<or> 2 ^ 32 - 510 \<le> uint (y - x)"
proof -
  from x obtain e1 where e1: "0 \<le> e1" "e1 < 256" "x = base + word_of_int (2 * e1)"
    by (auto simp add: slots_def)
  from y obtain e2 where e2: "0 \<le> e2" "e2 < 256" "y = base + word_of_int (2 * e2)"
    by (auto simp add: slots_def)
  have "y - x = word_of_int (2 * e2 - 2 * e1)"
    unfolding e1(3) e2(3) by simp
  then have u: "uint (y - x) = (2 * e2 - 2 * e1) mod 2 ^ 32"
    by (simp only: uint_word_of_int) simp
  show ?thesis
  proof (cases "e1 \<le> e2")
    case True
    then have "0 \<le> 2 * e2 - 2 * e1" "2 * e2 - 2 * e1 < 2 ^ 32" using e1 e2 by simp_all
    then have "(2 * e2 - 2 * e1) mod 2 ^ 32 = 2 * e2 - 2 * e1" by (rule mod_pos_pos_trivial)
    with u e1 e2 show ?thesis by simp
  next
    case False
    then have "0 \<le> 2 * e2 - 2 * e1 + 2 ^ 32" "2 * e2 - 2 * e1 + 2 ^ 32 < 2 ^ 32"
      using e1 e2 by simp_all
    then have "(2 * e2 - 2 * e1 + 2 ^ 32) mod 2 ^ 32 = 2 * e2 - 2 * e1 + 2 ^ 32"
      by (rule mod_pos_pos_trivial)
    then have "(2 * e2 - 2 * e1) mod 2 ^ 32 = 2 * e2 - 2 * e1 + 2 ^ 32" by simp
    with u e1 e2 show ?thesis by simp
  qed
qed

lemma subtile_cols_multiple:
  assumes "st_valid t"
  obtains m where "0 < m" "subtile_cols t = m * TILE_COL_DIM (sizeof_dtype t)"
    "m = 1 \<longleftrightarrow> odd (underlying_width t)"
proof -
  from assms have sz: "sizeof_dtype t = 1 \<or> sizeof_dtype t = 2 \<or> sizeof_dtype t = 4"
    by (simp add: st_valid_def)
  let ?w = "underlying_width t"
  consider (four) "4 dvd ?w" | (two) "\<not> 4 dvd ?w" "2 dvd ?w" | (one) "\<not> 2 dvd ?w"
    by blast
  then show thesis
  proof cases
    case four
    then have e: "2 dvd ?w" by (meson dvd_trans even_numeral dvd_refl) 
    from sz show thesis
    proof (elim disjE)
      assume s: "sizeof_dtype t = 1"
      show thesis
        by (rule that [of 4])
          (use four e in \<open>simp_all add: s subtile_cols_def swizzle_bytes_def smod_eq_0_iff
            TILE_COL_DIM_def int_div_size_t_values\<close>)
    next
      assume s: "sizeof_dtype t = 2"
      show thesis
        by (rule that [of 4])
          (use four e in \<open>simp_all add: s subtile_cols_def swizzle_bytes_def smod_eq_0_iff
            TILE_COL_DIM_def int_div_size_t_values\<close>)
    next
      assume s: "sizeof_dtype t = 4"
      show thesis
        by (rule that [of 2])
          (use four e in \<open>simp_all add: s subtile_cols_def swizzle_bytes_def smod_eq_0_iff
            TILE_COL_DIM_def int_div_size_t_values\<close>)
    qed
  next
    case two
    from sz show thesis
    proof (elim disjE)
      assume s: "sizeof_dtype t = 1"
      show thesis
        by (rule that [of 2])
          (use two in \<open>simp_all add: s subtile_cols_def swizzle_bytes_def smod_eq_0_iff
            TILE_COL_DIM_def int_div_size_t_values\<close>)
    next
      assume s: "sizeof_dtype t = 2"
      show thesis
        by (rule that [of 2])
          (use two in \<open>simp_all add: s subtile_cols_def swizzle_bytes_def smod_eq_0_iff
            TILE_COL_DIM_def int_div_size_t_values\<close>)
    next
      assume s: "sizeof_dtype t = 4"
      show thesis
        by (rule that [of 2])
          (use two in \<open>simp_all add: s subtile_cols_def swizzle_bytes_def smod_eq_0_iff
            TILE_COL_DIM_def int_div_size_t_values\<close>)
    qed
  next
    case one
    then have n4: "\<not> 4 dvd ?w" by (meson dvd_trans even_numeral dvd_refl)
    from sz show thesis
    proof (elim disjE)
      assume s: "sizeof_dtype t = 1"
      show thesis
        by (rule that [of 1])
          (use one n4 in \<open>simp_all add: s subtile_cols_def swizzle_bytes_def smod_eq_0_iff
            TILE_COL_DIM_def int_div_size_t_values\<close>)
    next
      assume s: "sizeof_dtype t = 2"
      show thesis
        by (rule that [of 1])
          (use one n4 in \<open>simp_all add: s subtile_cols_def swizzle_bytes_def smod_eq_0_iff
            TILE_COL_DIM_def int_div_size_t_values\<close>)
    next
      assume s: "sizeof_dtype t = 4"
      show thesis
        by (rule that [of 1])
          (use one n4 in \<open>simp_all add: s subtile_cols_def swizzle_bytes_def smod_eq_0_iff
            TILE_COL_DIM_def int_div_size_t_values\<close>)
    qed
  qed
qed

lemma tile_col_dim_pos: "0 < TILE_COL_DIM sz"
  by (simp add: TILE_COL_DIM_def)

lemma block_eq_quantum_iff:
  assumes v: "st_valid t"
  shows "swizzle_block t bi bj = quantum t bi bj \<longleftrightarrow> odd (underlying_width t)"
proof
  assume "odd (underlying_width t)"
  with v show "swizzle_block t bi bj = quantum t bi bj" by (rule block_is_quantum)
next
  assume eq: "swizzle_block t bi bj = quantum t bi bj"
  let ?T = "TILE_COL_DIM (sizeof_dtype t)" and ?sc = "subtile_cols t"
  from subtile_cols_multiple [OF v] obtain m where m: "0 < m" "?sc = m * ?T"
    "m = 1 \<longleftrightarrow> odd (underlying_width t)" by blast
  have T: "0 < ?T" by (rule tile_col_dim_pos)
  have sc: "0 < ?sc" by (rule st_valid_subtile_cols(2) [OF v])
  have "(16 * bi, ?sc * bj) \<in> swizzle_block t bi bj"
    "(16 * bi, ?sc * bj + ?sc - 1) \<in> swizzle_block t bi bj"
    using sc by (simp_all add: swizzle_block_alt)
  then have a: "(16 * bi, ?sc * bj) \<in> quantum t bi bj"
    "(16 * bi, ?sc * bj + ?sc - 1) \<in> quantum t bi bj"
    by (simp_all only: eq)
  have "(16 * bi, ?T * bj) \<in> quantum t bi bj"
    using T by (simp add: quantum_def TILE_ROW_DIM_def algebra_simps)
  then have b: "(16 * bi, ?T * bj) \<in> swizzle_block t bi bj"
    by (simp only: eq)
  from a have 1: "?T * bj \<le> ?sc * bj" "?sc * bj + ?sc - 1 < ?T * bj + ?T"
    by (simp_all add: quantum_def algebra_simps)
  from b have 2: "?sc * bj \<le> ?T * bj"
    by (simp add: swizzle_block_alt)
  from 1 2 have "?sc \<le> ?T" by linarith
  then have "m * ?T \<le> 1 * ?T" by (simp add: m(2))
  then have "m \<le> 1" using T by (simp only: mult_le_cancel_right_pos)
  with m(1) have "m = 1" by simp
  with m(3) show "odd (underlying_width t)" by simp
qed

lemma quantum_in_block:
  assumes T: "0 < T" and m: "0 < (m::int)"
  shows "{T * qj ..< T * (qj + 1)} \<subseteq> {m * T * (qj div m) ..< m * T * (qj div m + 1)}"
proof
  fix c assume "c \<in> {T * qj ..< T * (qj + 1)}"
  then have c: "T * qj \<le> c" "c < T * qj + T" by (simp_all add: algebra_simps)
  have lt: "qj mod m < m" using m by (rule pos_mod_bound)
  have r0: "0 \<le> qj mod m" using m by simp
  from lt have r1: "qj mod m + 1 \<le> m" by linarith
  have "T * qj = T * (m * (qj div m) + qj mod m)" by simp
  also have "\<dots> = m * T * (qj div m) + T * (qj mod m)" by (simp only: algebra_simps)
  finally have e: "T * qj = m * T * (qj div m) + T * (qj mod m)" .
  have p: "0 \<le> T * (qj mod m)" using T r0 by simp
  have "T * (qj mod m + 1) \<le> T * m" using T r1 by (simp only: mult_le_cancel_left_pos)
  then have u: "T * (qj mod m) + T \<le> m * T" by (simp add: algebra_simps)
  from c e p u have "m * T * (qj div m) \<le> c" "c < m * T * (qj div m) + m * T"
    by linarith+
  then show "c \<in> {m * T * (qj div m) ..< m * T * (qj div m + 1)}"
    by (simp add: algebra_simps)
qed

lemma uint_plus_offset:
  fixes base :: "'a::len word"
  assumes "0 \<le> x" and "uint base + x < 2 ^ LENGTH('a)"
  shows "uint (base + word_of_int x) = uint base + x"
proof -
  have "0 \<le> uint base" by simp
  with assms have lt: "x < 2 ^ LENGTH('a)" by linarith
  have u: "uint (word_of_int x :: 'a word) = x"
    by (simp only: uint_word_of_int_eq take_bit_int_eq_self [OF assms(1) lt])
  have "uint base + uint (word_of_int x :: 'a word) < 2 ^ LENGTH('a)"
    using u assms(2) by simp
  then have "uint (base + word_of_int x) = uint base + uint (word_of_int x :: 'a word)"
    by (rule uint_add_lem [THEN iffD1])
  then show ?thesis by (simp only: u)
qed

lemma uint_plus_offset_mod:
  fixes base :: "'a::len word"
  shows "uint (base + word_of_int x) = (uint base + x) mod 2 ^ LENGTH('a)"
  by (simp add: uint_word_ariths uint_word_of_int mod_add_right_eq)

lemma mod_div_pow:
  fixes x :: int
  assumes "k \<le> L"
  shows "(x mod 2 ^ L) div 2 ^ k = (x div 2 ^ k) mod 2 ^ (L - k)"
proof -
  from assms obtain d where d: "L = k + d" using le_Suc_ex by blast
  have "x div 2 ^ k mod 2 ^ d = x mod 2 ^ (k + d) div 2 ^ k"
    by (rule div_exp_mod_exp_eq)
  then show ?thesis by (simp add: d)
qed

lemma chunk_of_slot:
  fixes base :: "'a::len word"
  assumes k: "k \<le> LENGTH('a)" and sz: "0 < sz" and h: "sz * n \<le> h * 2 ^ k"
    and a: "a \<in> slots base sz n"
  shows "uint a div 2 ^ k
           \<in> (\<lambda>i. (uint base div 2 ^ k + i) mod 2 ^ (LENGTH('a) - k)) ` {0..h}"
proof -
  from a obtain e where e: "0 \<le> e" "e < n" and ae: "a = base + word_of_int (sz * e)"
    by (auto simp add: slots_def)
  let ?X = "uint base + sz * e"
  let ?i = "(uint base mod 2 ^ k + sz * e) div 2 ^ k"
  have p: "(0::int) < 2 ^ k" by simp
  have se: "0 \<le> sz * e" "sz * e < sz * n" using sz e by simp_all
  have "uint a div 2 ^ k = (?X div 2 ^ k) mod 2 ^ (LENGTH('a) - k)"
    unfolding ae uint_plus_offset_mod by (rule mod_div_pow [OF k])
  moreover have "?X = 2 ^ k * (uint base div 2 ^ k) + (uint base mod 2 ^ k + sz * e)"
    by simp
  then have "?X div 2 ^ k = uint base div 2 ^ k + ?i"
    by (metis div_mult_self2 p order_less_irrefl add.commute)
  moreover have "0 \<le> uint base mod 2 ^ k" by simp
  then have "0 \<le> uint base mod 2 ^ k + sz * e" using se(1) by linarith
  then have i0: "0 \<le> ?i" using p by (simp add: pos_imp_zdiv_nonneg_iff)
  have b: "uint base mod 2 ^ k < 2 ^ k" by (rule pos_mod_bound) simp
  have "(h + 1) * 2 ^ k = h * 2 ^ k + (2::int) ^ k" by (simp add: algebra_simps)
  with b se(2) h have "uint base mod 2 ^ k + sz * e < (h + 1) * 2 ^ k"
    by linarith
  then have "?i < h + 1"
    by (rule div_less_of_less_mult [OF p])
  ultimately show ?thesis using i0 by auto
qed


lemma sixteen_not_among_nine:
  fixes q :: int
  assumes "\<And>i. 0 \<le> i \<Longrightarrow> i < 16 \<Longrightarrow> q + i \<in> f ` {0..(8::int)}"
  shows False
proof -
  have "{q..q + 15} \<subseteq> f ` {0..8}"
  proof
    fix x assume "x \<in> {q..q + 15}"
    then have "0 \<le> x - q" "x - q < 16" by simp_all
    from assms [OF this] show "x \<in> f ` {0..8}" by simp
  qed
  then have "card {q..q + 15} \<le> card (f ` {0..8})"
    by (rule card_mono [rotated]) simp
  also have "\<dots> \<le> card {0..(8::int)}" by (rule card_image_le) simp
  finally show False by simp
qed

lemma quantum_subset_block:
  assumes v: "st_valid t" and m: "0 < m" "subtile_cols t = m * TILE_COL_DIM (sizeof_dtype t)"
  shows "quantum t bi qj \<subseteq> swizzle_block t bi (qj div m)"
  unfolding quantum_def swizzle_block_def m(2)
  by (rule Sigma_mono [OF subset_refl quantum_in_block [OF tile_col_dim_pos m(1)]])

lemma block_of_quantum_within_tile:
  assumes v: "st_valid t" and m: "0 < m" "subtile_cols t = m * TILE_COL_DIM (sizeof_dtype t)"
    and qj: "0 \<le> qj" "qj < width t"
  shows "0 \<le> qj div m" and "subtile_cols t * (qj div m + 1) \<le> cols t"
proof -
  let ?T = "TILE_COL_DIM (sizeof_dtype t)"
  have T: "0 < ?T" by (rule tile_col_dim_pos)
  show "0 \<le> qj div m" using qj(1) m(1) by (simp add: pos_imp_zdiv_nonneg_iff)
  have c: "cols t = ?T * width t"
    using st_valid_width [OF v] by (simp add: width_def underlying_width_def)
  from st_valid_dvd_cols [OF v] obtain M where M: "cols t = subtile_cols t * M" ..
  have "subtile_cols t * M = ?T * (m * M)" unfolding m(2) by (simp only: ac_simps)
  with c M have "?T * width t = ?T * (m * M)" by (simp only:)
  with T have w: "width t = m * M" by simp
  with qj(2) have "qj < m * M" by simp
  then have "qj div m < M" using m(1)
    by (metis div_less_of_less_mult mult.commute)
  then have "qj div m + 1 \<le> M" by simp
  then have "subtile_cols t * (qj div m + 1) \<le> subtile_cols t * M"
    using st_valid_subtile_cols(2) [OF v] by (simp only: mult_le_cancel_left_pos)
  then show "subtile_cols t * (qj div m + 1) \<le> cols t" by (simp only: M)
qed

lemma idx_inj_on_quantum:
  fixes ptr :: "'a::len word"
  assumes v: "st_valid t"
    and al: "ptr mod word_of_int (swizzle_bytes t) = 0"
    and nw: "uint ptr + sizeof_dtype t * (rows t * cols t) \<le> 2 ^ LENGTH('a)"
    and bi: "0 \<le> bi" "bi < height t"
    and qj: "0 \<le> qj" "qj < width t"
  shows "inj_on (idx t ptr) (quantum t bi qj)"
proof -
  from subtile_cols_multiple [OF v] obtain m where m: "0 < m"
    "subtile_cols t = m * TILE_COL_DIM (sizeof_dtype t)" by blast
  note b = block_of_quantum_within_tile [OF v m qj]
  from idx_block_bijection(1) [OF v al nw bi b]
  have "inj_on (idx t ptr) (swizzle_block t bi (qj div m))"
    by (rule bij_betw_imp_inj_on)
  then show ?thesis
    by (rule inj_on_subset) (rule quantum_subset_block [OF v m])
qed


lemma chunk_of_idx:
  fixes ptr :: "'a::len word"
  assumes v: "st_valid t" and k: "k \<le> 7" "swizzle_bytes t = 2 ^ k"
    and al: "ptr mod word_of_int (swizzle_bytes t) = 0"
    and nw: "uint ptr + sizeof_dtype t * (rows t * cols t) \<le> 2 ^ LENGTH('a)"
    and bi: "0 \<le> bi" "bi < height t"
    and bj: "0 \<le> bj" "subtile_cols t * (bj + 1) \<le> cols t"
    and rc: "(r, c) \<in> swizzle_block t bi bj"
  shows "uint (idx t ptr (r, c)) div 2 ^ k
       = uint (ptr + word_of_int (sizeof_dtype t * ((bj * rows t + 16 * bi) * subtile_cols t)))
           div 2 ^ k + (r - 16 * bi)"
proof -
  let ?sz = "sizeof_dtype t" and ?sc = "subtile_cols t"
  let ?base = "ptr + word_of_int (?sz * ((bj * rows t + 16 * bi) * ?sc))"
  let ?e = "(r - 16 * bi) * ?sc + (c - ?sc * bj)"
  have sz: "0 < ?sz" by (rule st_valid_sizeof(1) [OF v])
  have sc: "0 < ?sc" by (rule st_valid_subtile_cols(2) [OF v])
  have p: "?sz * ?sc = 2 ^ k" using st_valid_subtile_cols(1) [OF v] k(2) by simp
  from rc have r: "0 \<le> r - 16 * bi" "r - 16 * bi < 16"
    and c: "0 \<le> c - ?sc * bj" "c - ?sc * bj < ?sc"
    by (simp_all add: swizzle_block_alt)
  from block_base(2) [OF v k(2) al nw bi bj] obtain q where q: "uint ?base = 2 ^ k * q" ..
  have le: "uint ?base + ?sz * (16 * ?sc) \<le> 2 ^ LENGTH('a)"
    by (rule block_base(3) [OF v k(2) al nw bi bj])
  have y: "0 \<le> ?sz * (c - ?sc * bj)" "?sz * (c - ?sc * bj) < 2 ^ k"
  proof -
    show "0 \<le> ?sz * (c - ?sc * bj)" using sz c(1) by simp
    have "?sz * (c - ?sc * bj) < ?sz * ?sc" using sz c(2) by (simp only: mult_less_cancel_left_pos)
    then show "?sz * (c - ?sc * bj) < 2 ^ k" by (simp only: p)
  qed
  have se: "?sz * ?e = 2 ^ k * (r - 16 * bi) + ?sz * (c - ?sc * bj)"
    unfolding p [symmetric] by (simp add: algebra_simps)
  have "0 \<le> (2::int) ^ k * (r - 16 * bi)" using r(1) by simp
  with y(1) have e0: "0 \<le> ?sz * ?e" unfolding se by linarith
  have "(2::int) ^ k * (r - 16 * bi + 1) \<le> 2 ^ k * 16"
    using r(2) by (intro mult_left_mono) simp_all
  then have "?sz * ?e < 2 ^ k * 16" unfolding se using y(2) by (simp add: algebra_simps)
  moreover have "?sz * (16 * ?sc) = 2 ^ k * 16" unfolding p [symmetric] by simp
  ultimately have e1: "uint ?base + ?sz * ?e < 2 ^ LENGTH('a)" using le by linarith
  have "idx_addr t ptr (r, c) = ?base + word_of_int (?sz * ?e)"
    by (rule block_addr [OF v bj(1) rc])
  then have "uint (idx_addr t ptr (r, c)) = uint ?base + ?sz * ?e"
    by (simp only: uint_plus_offset [OF e0 e1])
  then have u: "uint (idx_addr t ptr (r, c)) = 2 ^ k * (q + (r - 16 * bi)) + ?sz * (c - ?sc * bj)"
    unfolding q se by (simp add: algebra_simps)
  have "uint (idx t ptr (r, c)) div 2 ^ k = uint (idx_addr t ptr (r, c)) div 2 ^ k"
    unfolding idx_swz [OF k(2)] by (rule uint_swz_div [OF k(1)])
  also have "\<dots> = q + (r - 16 * bi)"
    unfolding u using y by simp
  also have "q = uint ?base div 2 ^ k"
    unfolding q by simp
  finally show ?thesis .
qed

lemma card_quantum: "int (card (quantum t bi qj)) = 16 * TILE_COL_DIM (sizeof_dtype t)"
  by (simp add: quantum_def card_cartesian_product TILE_ROW_DIM_def TILE_COL_DIM_def)

lemma even_width_image_not_contiguous:
  fixes ptr :: "'a::len word"
  assumes v: "st_valid t"
    and al: "ptr mod word_of_int (swizzle_bytes t) = 0"
    and nw: "uint ptr + sizeof_dtype t * (rows t * cols t) \<le> 2 ^ LENGTH('a)"
    and bi: "0 \<le> bi" "bi < height t"
    and qj: "0 \<le> qj" "qj < width t"
    and ev: "even (underlying_width t)"
  shows "\<not> onto_contiguous_range t ptr (quantum t bi qj)"
proof
  assume "onto_contiguous_range t ptr (quantum t bi qj)"
  then obtain b :: "'a word" where
    b: "bij_betw (idx t ptr) (quantum t bi qj)
          (slots b (sizeof_dtype t) (16 * TILE_COL_DIM (sizeof_dtype t)))"
    unfolding onto_contiguous_range_def card_quantum by blast
  let ?sz = "sizeof_dtype t" and ?sc = "subtile_cols t" and ?T = "TILE_COL_DIM (sizeof_dtype t)"
  from subtile_cols_multiple [OF v] obtain m where m: "0 < m" "?sc = m * ?T"
    "m = 1 \<longleftrightarrow> odd (underlying_width t)" by blast
  from m(1,3) ev have m2: "2 \<le> m" by (cases "m = 1") simp_all
  from st_valid_period [OF v] obtain k where k: "k \<le> 7" "swizzle_bytes t = 2 ^ k"
    by blast
  have sz: "0 < ?sz" by (rule st_valid_sizeof(1) [OF v])
  have T: "0 < ?T" by (rule tile_col_dim_pos)
  have p: "?sz * ?sc = 2 ^ k" using st_valid_subtile_cols(1) [OF v] k(2) by simp
  note bj = block_of_quantum_within_tile [OF v m(1,2) qj]
  let ?bj = "qj div m"
  let ?base = "ptr + word_of_int (?sz * ((?bj * rows t + 16 * bi) * ?sc))"
  have le: "uint ?base + ?sz * (16 * ?sc) \<le> 2 ^ LENGTH('a)"
    by (rule block_base(3) [OF v k(2) al nw bi bj])
  have "?sz * (16 * ?sc) = 16 * 2 ^ k" unfolding p [symmetric] by simp
  moreover have "0 \<le> uint ?base" by simp
  moreover have "(0::int) < 2 ^ k" by simp
  ultimately have "(2::int) ^ k \<le> 2 ^ LENGTH('a)" using le by linarith
  then have kL: "k \<le> LENGTH('a)" by simp
  have "2 * (?sz * ?T) \<le> m * (?sz * ?T)"
    using m2 sz T by (intro mult_right_mono) simp_all
  also have "\<dots> = 2 ^ k" unfolding p [symmetric] m(2) by (simp add: algebra_simps)
  finally have h: "?sz * (16 * ?T) \<le> 8 * 2 ^ k" by simp
  let ?f = "\<lambda>i. (uint b div 2 ^ k + i) mod 2 ^ (LENGTH('a) - k)"
  have "uint ?base div 2 ^ k + i \<in> ?f ` {0..8}" if i: "0 \<le> i" "i < 16" for i
  proof -
    have in_q: "(16 * bi + i, ?T * qj) \<in> quantum t bi qj"
      using i T by (simp add: quantum_def TILE_ROW_DIM_def algebra_simps)
    then have in_b: "(16 * bi + i, ?T * qj) \<in> swizzle_block t bi ?bj"
      using quantum_subset_block [OF v m(1,2)] by blast
    from in_q have "idx t ptr (16 * bi + i, ?T * qj) \<in> slots b ?sz (16 * ?T)"
      using bij_betwE [OF b] by blast
    from chunk_of_slot [OF kL sz h this]
    have "uint (idx t ptr (16 * bi + i, ?T * qj)) div 2 ^ k \<in> ?f ` {0..8}" .
    then show ?thesis
      unfolding chunk_of_idx [OF v k al nw bi bj in_b] by simp
  qed
  then show False by (rule sixteen_not_among_nine)
qed

subsection \<open>The address function on base tiles and on swizzle blocks\<close>

text \<open>
  C1, as stated, fails.  In a two-byte tile of 16 by 32 the base tile \<open>(0, 0)\<close> holds
  256 elements, 512 bytes; \<open>idx\<close> sends its corner \<open>(0, 0)\<close> to byte 0 and its corner
  \<open>(15, 15)\<close> to byte 1006, so the image of the base tile is no contiguous range of
  256 element slots.
\<close>

theorem quantum_not_contiguous:
  "idx \<lparr>sizeof_dtype = 2, packing_num = 1, rows = 16, cols = 32\<rparr> (0::32 word) (0, 0) = 0
   \<and> idx \<lparr>sizeof_dtype = 2, packing_num = 1, rows = 16, cols = 32\<rparr> (0::32 word) (15, 15) = 1006
   \<and> \<not> onto_contiguous_range \<lparr>sizeof_dtype = 2, packing_num = 1, rows = 16, cols = 32\<rparr> (0::32 word)
          (quantum \<lparr>sizeof_dtype = 2, packing_num = 1, rows = 16, cols = 32\<rparr> 0 0)"
proof -
  let ?t = "\<lparr>sizeof_dtype = 2, packing_num = 1, rows = 16, cols = 32\<rparr>"
  have Q: "quantum ?t 0 0 = {0..<16} \<times> {0..<16}"
    by (simp add: quantum_def TILE_ROW_DIM_def TILE_COL_DIM_def)
  have c: "int (card (quantum ?t 0 0)) = 256"
    unfolding Q by (simp add: card_cartesian_product)
  have "False" if "onto_contiguous_range ?t (0::32 word) (quantum ?t 0 0)"
  proof -
    from that obtain base :: "32 word"
      where b: "bij_betw (idx ?t 0) (quantum ?t 0 0) (slots base 2 256)"
      unfolding onto_contiguous_range_def c by auto
    have "(0, 0) \<in> quantum ?t 0 0" "(15, 15) \<in> quantum ?t 0 0" unfolding Q by simp_all
    then have "idx ?t 0 (0, 0) \<in> slots base 2 256" "idx ?t 0 (15, 15) \<in> slots base 2 256"
      using bij_betwE [OF b] by blast+
    then have "(0::32 word) \<in> slots base 2 256" "(1006::32 word) \<in> slots base 2 256"
      by (simp_all only: idx_bf16_16x32)
    from slots_spread [OF this] show False by simp
  qed
  then show ?thesis using idx_bf16_16x32 by blast
qed

text \<open>
  C1, amended.  For a valid tile whose base address is aligned to the swizzle period
  and whose bytes do not wrap around the address space, \<open>idx\<close> restricted to a block
  one base tile high and \<open>subtile_cols\<close> columns wide is a bijection onto the
  \<open>16 * subtile_cols\<close> consecutive element slots that start at the block's first
  element, and the XOR step permutes these slots among themselves.  The block is one
  base tile exactly when the width of the tile in base tiles is odd.  On every base
  tile of the tile \<open>idx\<close> is injective; when the width is even, the image of the base
  tile is not a range of as many consecutive element slots, whatever its start.
\<close>

theorem swizzle_bijection_on_blocks:
  fixes ptr :: "'a::len word"
  assumes v: "st_valid t"
    and al: "ptr mod word_of_int (swizzle_bytes t) = 0"
    and nw: "uint ptr + sizeof_dtype t * (rows t * cols t) \<le> 2 ^ LENGTH('a)"
    and bi: "0 \<le> bi" "bi < height t"
    and bj: "0 \<le> bj" "subtile_cols t * (bj + 1) \<le> cols t"
  shows "bij_betw (idx t ptr) (swizzle_block t bi bj)
           (slots (ptr + word_of_int (sizeof_dtype t *
                      ((bj * rows t + 16 * bi) * subtile_cols t)))
              (sizeof_dtype t) (16 * subtile_cols t))
       \<and> bij_betw (xor_swizzle t)
           (slots (ptr + word_of_int (sizeof_dtype t *
                      ((bj * rows t + 16 * bi) * subtile_cols t)))
              (sizeof_dtype t) (16 * subtile_cols t))
           (slots (ptr + word_of_int (sizeof_dtype t *
                      ((bj * rows t + 16 * bi) * subtile_cols t)))
              (sizeof_dtype t) (16 * subtile_cols t))
       \<and> (swizzle_block t bi bj = quantum t bi bj \<longleftrightarrow> odd (underlying_width t))
       \<and> (\<forall>qj. 0 \<le> qj \<and> qj < width t \<longrightarrow>
              inj_on (idx t ptr) (quantum t bi qj)
              \<and> (even (underlying_width t)
                    \<longrightarrow> \<not> onto_contiguous_range t ptr (quantum t bi qj)))"
proof (intro conjI allI impI)
  show "bij_betw (idx t ptr) (swizzle_block t bi bj)
           (slots (ptr + word_of_int (sizeof_dtype t *
                      ((bj * rows t + 16 * bi) * subtile_cols t)))
              (sizeof_dtype t) (16 * subtile_cols t))"
    by (rule idx_block_bijection(1) [OF v al nw bi bj])
  show "bij_betw (xor_swizzle t)
           (slots (ptr + word_of_int (sizeof_dtype t *
                      ((bj * rows t + 16 * bi) * subtile_cols t)))
              (sizeof_dtype t) (16 * subtile_cols t))
           (slots (ptr + word_of_int (sizeof_dtype t *
                      ((bj * rows t + 16 * bi) * subtile_cols t)))
              (sizeof_dtype t) (16 * subtile_cols t))"
    by (rule idx_block_bijection(2) [OF v al nw bi bj])
  show "swizzle_block t bi bj = quantum t bi bj \<longleftrightarrow> odd (underlying_width t)"
    by (rule block_eq_quantum_iff [OF v])
next
  fix qj assume "0 \<le> qj \<and> qj < width t"
  then show "inj_on (idx t ptr) (quantum t bi qj)"
    by (intro idx_inj_on_quantum [OF v al nw bi]) simp_all
next
  fix qj assume "0 \<le> qj \<and> qj < width t" and "even (underlying_width t)"
  then show "\<not> onto_contiguous_range t ptr (quantum t bi qj)"
    by (intro even_width_image_not_contiguous [OF v al nw bi]) simp_all
qed

theorem swizzle_bijection_on_blocks_witness:
  "st_valid \<lparr>sizeof_dtype = 4, packing_num = 1, rows = 32, cols = 48\<rparr>
   \<and> odd (underlying_width \<lparr>sizeof_dtype = 4, packing_num = 1, rows = 32, cols = 48\<rparr>)
   \<and> bij_betw (idx \<lparr>sizeof_dtype = 4, packing_num = 1, rows = 32, cols = 48\<rparr> (1024 :: 32 word))
         (quantum \<lparr>sizeof_dtype = 4, packing_num = 1, rows = 32, cols = 48\<rparr> 1 2)
         (slots 6144 4 256)
   \<and> st_valid \<lparr>sizeof_dtype = 2, packing_num = 1, rows = 16, cols = 32\<rparr>
   \<and> even (underlying_width \<lparr>sizeof_dtype = 2, packing_num = 1, rows = 16, cols = 32\<rparr>)
   \<and> inj_on (idx \<lparr>sizeof_dtype = 2, packing_num = 1, rows = 16, cols = 32\<rparr> (0 :: 32 word))
         (quantum \<lparr>sizeof_dtype = 2, packing_num = 1, rows = 16, cols = 32\<rparr> 0 1)
   \<and> \<not> onto_contiguous_range \<lparr>sizeof_dtype = 2, packing_num = 1, rows = 16, cols = 32\<rparr>
         (0 :: 32 word)
         (quantum \<lparr>sizeof_dtype = 2, packing_num = 1, rows = 16, cols = 32\<rparr> 0 1)"
proof -
  let ?t = "\<lparr>sizeof_dtype = 4, packing_num = 1, rows = 32, cols = 48\<rparr>"
  have w: "underlying_width ?t = 3"
    by (simp add: underlying_width_def TILE_COL_DIM_def signed_divide_int_def)
  have sb: "swizzle_bytes ?t = 64"
    by (simp add: swizzle_bytes_def w signed_modulo_int_def)
  have sc: "subtile_cols ?t = 16"
    by (simp add: subtile_cols_def sb int_div_size_t_values)
  have h: "height ?t = 2"
    by (simp add: height_def TILE_ROW_DIM_def signed_divide_int_def)
  have v: "st_valid ?t"
    by (simp add: st_valid_def st_static_asserts_def smod_eq_0_iff TILE_ROW_DIM_def
        TILE_COL_DIM_def)
  have al: "(1024 :: 32 word) mod word_of_int (swizzle_bytes ?t) = 0"
    by (simp add: sb)
  have nw: "uint (1024 :: 32 word) + sizeof_dtype ?t * (rows ?t * cols ?t) \<le> 2 ^ LENGTH(32)"
    by simp
  have bi: "(0::int) \<le> 1" "1 < height ?t" by (simp_all add: h)
  have bj: "(0::int) \<le> 2" "subtile_cols ?t * (2 + 1) \<le> cols ?t" by (simp_all add: sc)
  have o: "odd (underlying_width ?t)" by (simp add: w)
  note th = swizzle_bijection_on_blocks [OF v al nw bi bj]
  from th [THEN conjunct2, THEN conjunct2, THEN conjunct1] o
  have q: "swizzle_block ?t 1 2 = quantum ?t 1 2" by (rule iffD2)
  from th have "bij_betw (idx ?t (1024 :: 32 word)) (swizzle_block ?t 1 2)
          (slots (1024 + word_of_int (sizeof_dtype ?t * ((2 * rows ?t + 16 * 1) * subtile_cols ?t)))
             (sizeof_dtype ?t) (16 * subtile_cols ?t))"
    by (rule conjunct1)
  then have 1: "bij_betw (idx ?t (1024 :: 32 word)) (quantum ?t 1 2) (slots 6144 4 256)"
    unfolding q by (simp add: sc)
  let ?u = "\<lparr>sizeof_dtype = 2, packing_num = 1, rows = 16, cols = 32\<rparr>"
  have w': "underlying_width ?u = 2" "width ?u = 2"
    by (simp_all add: underlying_width_def width_def TILE_COL_DIM_def signed_divide_int_def)
  have sb': "swizzle_bytes ?u = 64"
    by (simp add: swizzle_bytes_def w' signed_modulo_int_def)
  have sc': "subtile_cols ?u = 32"
    by (simp add: subtile_cols_def sb' int_div_size_t_values)
  have h': "height ?u = 1"
    by (simp add: height_def TILE_ROW_DIM_def signed_divide_int_def)
  have v': "st_valid ?u"
    by (simp add: st_valid_def st_static_asserts_def smod_eq_0_iff TILE_ROW_DIM_def
        TILE_COL_DIM_def)
  have al': "(0 :: 32 word) mod word_of_int (swizzle_bytes ?u) = 0"
    by (simp add: sb')
  have nw': "uint (0 :: 32 word) + sizeof_dtype ?u * (rows ?u * cols ?u) \<le> 2 ^ LENGTH(32)"
    by simp
  have bi': "(0::int) \<le> 0" "0 < height ?u" by (simp_all add: h')
  have bj': "(0::int) \<le> 0" "subtile_cols ?u * (0 + 1) \<le> cols ?u" by (simp_all add: sc')
  have e: "even (underlying_width ?u)" by (simp add: w')
  have qj: "(0::int) \<le> 1 \<and> 1 < width ?u" by (simp add: w')
  note th' = swizzle_bijection_on_blocks [OF v' al' nw' bi' bj']
  note c = th' [THEN conjunct2, THEN conjunct2, THEN conjunct2, rule_format, OF qj]
  from c have 2: "inj_on (idx ?u (0 :: 32 word)) (quantum ?u 0 1)"
    by (rule conjunct1)
  from c [THEN conjunct2] e
  have 3: "\<not> onto_contiguous_range ?u (0 :: 32 word) (quantum ?u 0 1)"
    by (rule mp)
  show ?thesis
    by (intro conjI) (rule v o 1 v' e 2 3)+
qed

text \<open>
  The alignment of the base address cannot be dropped.  A four-byte tile of 16 by 16
  has a period of 64 bytes; placed at byte 144 it has \<open>idx\<close> send \<open>(0, 0)\<close> to byte 128,
  below the tile, so \<open>idx\<close> is no bijection from the block onto the slots of the tile.
\<close>

lemma unaligned_base_leaves_the_block:
  "st_valid \<lparr>sizeof_dtype = 4, packing_num = 1, rows = 16, cols = 16\<rparr>
   \<and> (144 :: 32 word)
        mod word_of_int (swizzle_bytes \<lparr>sizeof_dtype = 4, packing_num = 1, rows = 16, cols = 16\<rparr>)
       \<noteq> 0
   \<and> idx \<lparr>sizeof_dtype = 4, packing_num = 1, rows = 16, cols = 16\<rparr> (144 :: 32 word) (0, 0) = 128
   \<and> \<not> bij_betw (idx \<lparr>sizeof_dtype = 4, packing_num = 1, rows = 16, cols = 16\<rparr> (144 :: 32 word))
         (swizzle_block \<lparr>sizeof_dtype = 4, packing_num = 1, rows = 16, cols = 16\<rparr> 0 0)
         (slots 144 4 256)"
proof -
  let ?t = "\<lparr>sizeof_dtype = 4, packing_num = 1, rows = 16, cols = 16\<rparr>"
  have w: "underlying_width ?t = 1"
    by (simp add: underlying_width_def TILE_COL_DIM_def signed_divide_int_def)
  have sb: "swizzle_bytes ?t = 64"
    by (simp add: swizzle_bytes_def w signed_modulo_int_def)
  have sc: "subtile_cols ?t = 16"
    by (simp add: subtile_cols_def sb int_div_size_t_values)
  have v: "st_valid ?t"
    by (simp add: st_valid_def st_static_asserts_def smod_eq_0_iff TILE_ROW_DIM_def
        TILE_COL_DIM_def)
  have al: "(144 :: 32 word) mod word_of_int (swizzle_bytes ?t) \<noteq> 0"
    by (simp add: sb)
  have i: "idx ?t (144 :: 32 word) (0, 0) = 128"
    by (simp add: idx_def sc sb swizzle_repeat_def signed_divide_int_def signed_modulo_int_def)
  have "(128 :: 32 word) \<in> slots 144 4 256 \<longleftrightarrow> in_bytes (uint (144 :: 32 word)) (4 * 256) 4 (128 :: 32 word)"
    by (rule slots_iff) simp_all
  then have n: "(128 :: 32 word) \<notin> slots 144 4 256"
    by (simp add: in_bytes_def)
  have "(0, 0) \<in> swizzle_block ?t 0 0"
    by (simp add: swizzle_block_alt sc)
  then have "idx ?t (144 :: 32 word) (0, 0) \<in> slots 144 4 256"
    if "bij_betw (idx ?t (144 :: 32 word)) (swizzle_block ?t 0 0) (slots 144 4 256)"
    using bij_betwE [OF that] by blast
  with n have b: "\<not> bij_betw (idx ?t (144 :: 32 word)) (swizzle_block ?t 0 0) (slots 144 4 256)"
    unfolding i by blast
  show ?thesis
    by (intro conjI) (rule v al i b)+
qed

subsection \<open>The two element accessors\<close>

text \<open>
  C9.  The accessor by a single integer reads the backing array at offset \<open>i\<close>, with
  no swizzle; the accessor by coordinate reads at the swizzled address, the unswizzled
  address XOR the swizzle term; and if the two name the same location for \<open>(r, c)\<close> and
  \<open>r * cols + c\<close>, then the swizzle term of that address is zero.
\<close>

theorem raw_index_vs_coordinate:
  assumes "st_valid t"
  shows "st_at_index t mem d i = mem (d + word_of_int (sizeof_dtype t * i))
       \<and> st_at_coord t mem d (r, c) = mem (idx_addr t d (r, c) XOR idx_swizzle t d (r, c))
       \<and> (idx t d (r, c) = d + word_of_int (sizeof_dtype t * (r * cols t + c))
            \<longrightarrow> idx_swizzle t d (r, c) = 0)"
  using same_location_swizzle_zero [OF assms, of d r c]
  by (simp add: st_at_index_def st_at_coord_def idx_split)

theorem raw_index_vs_coordinate_witness:
  "st_valid \<lparr>sizeof_dtype = 2, packing_num = 1, rows = 16, cols = 16\<rparr>
   \<and> idx \<lparr>sizeof_dtype = 2, packing_num = 1, rows = 16, cols = 16\<rparr> (0 :: 32 word) (1, 3)
       = 0 + word_of_int (sizeof_dtype \<lparr>sizeof_dtype = 2, packing_num = 1, rows = 16, cols = 16\<rparr>
               * (1 * cols \<lparr>sizeof_dtype = 2, packing_num = 1, rows = 16, cols = 16\<rparr> + 3))
   \<and> idx_swizzle \<lparr>sizeof_dtype = 2, packing_num = 1, rows = 16, cols = 16\<rparr> (0 :: 32 word) (1, 3) = 0"
proof -
  let ?t = "\<lparr>sizeof_dtype = 2, packing_num = 1, rows = 16, cols = 16\<rparr>"
  have v: "st_valid ?t"
    by (simp add: st_valid_def st_static_asserts_def smod_eq_0_iff TILE_ROW_DIM_def
        TILE_COL_DIM_def)
  have e: "idx ?t (0 :: 32 word) (1, 3)
             = 0 + word_of_int (sizeof_dtype ?t * (1 * cols ?t + 3))"
    by (simp add: idx_def subtile_cols_def int_div_size_t_values swizzle_bytes_def swizzle_repeat_def
        underlying_width_def TILE_COL_DIM_def signed_divide_int_def signed_modulo_int_def)
  from raw_index_vs_coordinate [OF v, of undefined "0 :: 32 word" 0 1 3] e
  have "idx_swizzle ?t (0 :: 32 word) (1, 3) = 0" by blast
  with v e show ?thesis by blast
qed

subsection \<open>The dispatcher\<close>

text \<open>
  C6.  Both forms of the dispatcher, \<open>rt_st\<close> and \<open>st_st\<close>, pass their static
  assertions exactly for the three pairs of accumulator and operand type (float with
  bf16, float with half, half with half) and a sign flag of 1 or -1; every other
  instantiation is rejected by a static assertion, whatever the run-time arguments.
\<close>

theorem dispatcher_closed_set:
  "(instantiates (rt_st T_D T_AB trans_a trans_b scale_b scale_d) \<longleftrightarrow>
      (T_D, T_AB) \<in> {(dt_float, dt_bf16), (dt_float, dt_half), (dt_half, dt_half)}
      \<and> (scale_b = 1 \<or> scale_b = - 1))
   \<and> (instantiates (st_st T_D T_AB trans_a trans_b scale_b scale_d) \<longleftrightarrow>
      (T_D, T_AB) \<in> {(dt_float, dt_bf16), (dt_float, dt_half), (dt_half, dt_half)}
      \<and> (scale_b = 1 \<or> scale_b = - 1))"
  by (cases T_D; cases T_AB; simp add: rt_st_def st_st_def instantiates_def)

subsection \<open>What a load leaves in the registers\<close>

lemma fold_fixed: "(\<And>x. x \<in> set xs \<Longrightarrow> f x s = s) \<Longrightarrow> fold f xs s = s"
  by (induction xs) simp_all

lemma fold_load_body_inner:
  "fold (load_body E RT S mem l i) js tiles i' j' =
     (if i' = i \<and> j' \<in> set js
      then (case load_tile E RT S mem l i j' of None \<Rightarrow> tiles i' j' | Some ds \<Rightarrow> ds)
      else tiles i' j')"
proof (induction js arbitrary: tiles)
  case Nil
  then show ?case by simp
next
  case (Cons j js)
  have "fold (load_body E RT S mem l i) (j # js) tiles i' j'
      = fold (load_body E RT S mem l i) js (load_body E RT S mem l i j tiles) i' j'"
    by simp
  also have "\<dots> = (if i' = i \<and> j' \<in> set js
      then (case load_tile E RT S mem l i j' of
              None \<Rightarrow> load_body E RT S mem l i j tiles i' j' | Some ds \<Rightarrow> ds)
      else load_body E RT S mem l i j tiles i' j')"
    by (rule Cons.IH)
  also have "\<dots> = (if i' = i \<and> j' \<in> set (j # js)
      then (case load_tile E RT S mem l i j' of None \<Rightarrow> tiles i' j' | Some ds \<Rightarrow> ds)
      else tiles i' j')"
    by (auto simp add: load_body_def split: option.splits)
  finally show ?case .
qed

lemma fold_load_body_outer:
  "fold (\<lambda>i. fold (load_body E RT S mem l i) js) is tiles i' j' =
     (if i' \<in> set is \<and> j' \<in> set js
      then (case load_tile E RT S mem l i' j' of None \<Rightarrow> tiles i' j' | Some ds \<Rightarrow> ds)
      else tiles i' j')"
proof (induction "is" arbitrary: tiles)
  case Nil
  then show ?case by simp
next
  case (Cons i "is")
  let ?t1 = "fold (load_body E RT S mem l i) js tiles"
  have "fold (\<lambda>i. fold (load_body E RT S mem l i) js) (i # is) tiles i' j'
      = fold (\<lambda>i. fold (load_body E RT S mem l i) js) is ?t1 i' j'"
    by simp
  also have "\<dots> = (if i' \<in> set is \<and> j' \<in> set js
      then (case load_tile E RT S mem l i' j' of None \<Rightarrow> ?t1 i' j' | Some ds \<Rightarrow> ds)
      else ?t1 i' j')"
    by (rule Cons.IH)
  also have "\<dots> = (if i' \<in> set (i # is) \<and> j' \<in> set js
      then (case load_tile E RT S mem l i' j' of None \<Rightarrow> tiles i' j' | Some ds \<Rightarrow> ds)
      else tiles i' j')"
    by (auto simp add: fold_load_body_inner split: option.splits)
  finally show ?case .
qed

lemma load_regs_at:
  assumes "load E RT S mem dst = Inr regs" and "l \<in> set lanes"
    and "i \<in> set [0..rt_height RT - 1]" and "j \<in> set [0..rt_width RT - 1]"
  shows "regs l i j = (case load_tile E RT S mem l i j of None \<Rightarrow> dst l i j | Some ds \<Rightarrow> ds)"
proof -
  from assms(1) have "regs = (\<lambda>laneid.
        if laneid \<in> set lanes
        then fold (\<lambda>i. fold (load_body E RT S mem laneid i) [0..rt_width RT - 1])
               [0..rt_height RT - 1] (dst laneid)
        else dst laneid)"
    by (simp add: load_def split: if_splits)
  then show ?thesis
    using assms(2-4) by (simp only: fold_load_body_outer if_True simp_thms)
qed

subsection \<open>Storing what was loaded\<close>

lemma exec_writes_fixed:
  assumes "\<And>op. op \<in> set ops \<Longrightarrow> \<exists>a. op = Sts a (mem a)"
  shows "fold (exec E) ops mem = mem"
proof (rule fold_fixed)
  fix op assume "op \<in> set ops"
  then obtain a where "op = Sts a (mem a)" using assms by blast
  then show "exec E op mem = mem" by simp
qed

lemma store_tile_row32:
  assumes sz: "sizeof_dtype (st_type S) = 4" and lay: "layout RT = rt_layout_row"
    and cv: "\<And>p. to_shared E (to_reg E p) = p"
    and R: "\<And>l. l \<in> set lanes \<Longrightarrow>
              regs l i j = (case load_tile E RT S mem l i j of None \<Rightarrow> dst l i j | Some ds \<Rightarrow> ds)"
    and op: "op \<in> set (store_tile E RT S regs i j)"
  shows "\<exists>a. op = Sts a (mem a)"
  using op
  apply (clarsimp simp add: store_tile_def Let_def sz lay case_prod_beta)
  subgoal for l
    using R [of l]
    by (auto simp add: load_tile_def Let_def sz lay case_prod_beta cv split: if_splits)
  done

lemma store_tile_col_major:
  assumes sz: "sizeof_dtype (st_type S) \<noteq> 2" "sizeof_dtype (st_type S) \<noteq> 1"
    and lay: "\<not> (layout RT = rt_layout_row \<and> sizeof_dtype (st_type S) = 4)"
    and cv: "\<And>p. to_shared E (to_reg E p) = p"
    and R: "\<And>l. l \<in> set lanes \<Longrightarrow>
              regs l i j = (case load_tile E RT S mem l i j of None \<Rightarrow> dst l i j | Some ds \<Rightarrow> ds)"
    and op: "op \<in> set (store_tile E RT S regs i j)"
  shows "\<exists>a. op = Sts a (mem a)"
  using op lay
  apply (clarsimp simp add: store_tile_def Let_def sz)
  subgoal for l
    using R [of l] lay
    by (auto simp add: load_tile_def Let_def sz cv)
  done

lemma store_tile_stsm:
  assumes br: "sizeof_dtype (st_type S) = 2 \<and> KITTENS_HOPPER E
             \<or> sizeof_dtype (st_type S) = 1 \<and> layout RT = rt_layout_row"
    and cv: "\<And>p. to_shared E (to_reg E p) = p"
    and hw: "grouped_store_undoes_load E"
    and R: "\<And>l. l \<in> set lanes \<Longrightarrow>
              regs l i j = (case load_tile E RT S mem l i j of None \<Rightarrow> dst l i j | Some ds \<Rightarrow> ds)"
  shows "fold (exec E) (store_tile E RT S regs i j) mem = mem"
proof -
  from hw have h4: "stsm4 E m a v = m" if "\<And>l. l \<in> set lanes \<Longrightarrow> v l = ldsm4 E m a l" for m a v
    using that unfolding grouped_store_undoes_load_def by blast
  from hw have h4t: "stsm4t E m a v = m" if "\<And>l. l \<in> set lanes \<Longrightarrow> v l = ldsm4t E m a l" for m a v
    using that unfolding grouped_store_undoes_load_def by blast
  from br show ?thesis
  proof (elim disjE conjE)
    assume sz: "sizeof_dtype (st_type S) = 2" and ho: "KITTENS_HOPPER E"
    show ?thesis
    proof (cases "layout RT = rt_layout_row")
      case True
      show ?thesis
        apply (simp add: store_tile_def Let_def sz ho True)
        apply (rule h4)
        subgoal for l
          using R [of l]
          by (simp add: load_tile_def Let_def sz True case_prod_beta cv)
        done
    next
      case False
      show ?thesis
        apply (simp add: store_tile_def Let_def sz ho False)
        apply (rule h4t)
        subgoal for l
          using R [of l]
          by (simp add: load_tile_def Let_def sz False case_prod_beta cv)
        done
    qed
  next
    assume sz: "sizeof_dtype (st_type S) = 1" and lay: "layout RT = rt_layout_row"
    show ?thesis
      apply (simp add: store_tile_def Let_def sz lay)
      apply (rule h4)
      subgoal for l
        using R [of l]
        by (simp add: load_tile_def Let_def sz lay case_prod_beta cv)
      done
  qed
qed

lemma fold_writes_fixed:
  "(\<And>w. w \<in> set ws \<Longrightarrow> m (fst w) = snd w) \<Longrightarrow> fold (\<lambda>w m. m(fst w := snd w)) ws m = m"
  by (rule fold_fixed) (simp add: fun_upd_idem_iff)

lemma stmatrix_undoes_ldmatrix:
  assumes "\<And>l. l \<in> set lanes \<Longrightarrow> v l = ldmatrix_x4 m a l"
  shows "stmatrix_x4 m a v = m"
  unfolding stmatrix_x4_def
  by (rule fold_writes_fixed)
    (auto simp add: stmatrix_x4_writes_def assms ldmatrix_x4_def Let_def)

lemma stmatrix_trans_undoes_ldmatrix_trans:
  assumes "\<And>l. l \<in> set lanes \<Longrightarrow> v l = ldmatrix_x4_trans m a l"
  shows "stmatrix_x4_trans m a v = m"
  unfolding stmatrix_x4_trans_def
  by (rule fold_writes_fixed)
    (auto simp add: stmatrix_x4_trans_writes_def assms ldmatrix_x4_trans_def Let_def)

lemma ptx_env_ok:
  "conversion_exact (ptx_env h)" "grouped_store_undoes_load (ptx_env h)"
  by (simp_all add: conversion_exact_def grouped_store_undoes_load_def ptx_env_def
      stmatrix_undoes_ldmatrix stmatrix_trans_undoes_ldmatrix_trans)

subsection \<open>Two-byte tiles: the grouped load against single stores\<close>

lemma swz_add_low:
  fixes A :: "'a::len word"
  assumes A: "take_bit 4 A = 0" and x: "take_bit 4 x = x"
  shows "swz k (A + x) = swz k A + x"
proof -
  have bA: "\<not> bit A n" if "n < 4" for n
  proof -
    have "bit (take_bit 4 A) n \<longleftrightarrow> bit A n" using that by (simp add: bit_take_bit_iff)
    then show ?thesis by (simp add: A)
  qed
  have bx: "\<not> bit x n" if "4 \<le> n" for n
  proof -
    have "\<not> bit (take_bit 4 x) n" using that by (simp add: bit_take_bit_iff)
    then show ?thesis by (simp add: x)
  qed
  have bS: "\<not> bit (swz k A) n" if "n < 4" for n
    using that bA by (simp add: bit_swz)
  have 1: "A + x = A OR x"
    by (rule disjunctive_add) (metis bA bx not_le)
  have 2: "swz k A + x = swz k A OR x"
    by (rule disjunctive_add) (metis bS bx not_le)
  show ?thesis
    unfolding 1 2
    by (rule bit_word_eqI) (auto simp add: bit_swz bit_or_iff bA bx)
qed

lemma st_valid_two_byte_cols:
  assumes "st_valid t" and "sizeof_dtype t = 2"
  shows "8 dvd subtile_cols t"
  using assms
  by (auto simp add: st_valid_def subtile_cols_def int_div_size_t_values swizzle_bytes_def sdiv_nonneg)

lemma col_in_same_period:
  assumes sc: "0 < (sc::int)" "8 dvd sc" and c0: "0 \<le> c0" "8 dvd c0" and d: "0 \<le> d" "d < 8"
  shows "(c0 + d) div sc = c0 div sc" and "(c0 + d) mod sc = c0 mod sc + d"
proof -
  have "8 dvd c0 mod sc" using sc(2) c0(2) by (simp add: dvd_mod)
  then obtain a where a: "c0 mod sc = 8 * a" ..
  from sc(2) obtain b where b: "sc = 8 * b" ..
  have m: "c0 mod sc < sc" "0 \<le> c0 mod sc" using sc(1) by simp_all
  from m(1) a b have "8 * a < 8 * b" by linarith
  then have "8 * a + 8 \<le> 8 * b" by simp
  with a b have "c0 mod sc + 8 \<le> sc" by linarith
  with m(2) d have lt: "c0 mod sc + d < sc" "0 \<le> c0 mod sc + d" by linarith+
  have e: "c0 + d = sc * (c0 div sc) + (c0 mod sc + d)" by simp
  show "(c0 + d) div sc = c0 div sc"
    by (rule int_div_pos_eq [OF e lt(2) lt(1)])
  show "(c0 + d) mod sc = c0 mod sc + d"
    by (rule int_mod_pos_eq [OF e lt(2) lt(1)])
qed

lemma idx_addr_add_col:
  assumes v: "st_valid t" and sz: "sizeof_dtype t = 2"
    and c0: "0 \<le> c0" "8 dvd c0" and d: "0 \<le> d" "d < 8"
  shows "idx_addr t ptr (r, c0 + d) = idx_addr t ptr (r, c0) + word_of_int (2 * d)"
    and "\<exists>N. idx_addr t ptr (r, c0) = ptr + push_bit 4 (word_of_int N)"
proof -
  let ?sc = "subtile_cols t"
  have sc: "0 < ?sc" "8 dvd ?sc"
    by (rule st_valid_subtile_cols(2) [OF v]) (rule st_valid_two_byte_cols [OF v sz])
  have dm: "(c0 + d) div ?sc = c0 div ?sc" "(c0 + d) mod ?sc = c0 mod ?sc + d"
    by (rule col_in_same_period [OF sc c0 d])+
  have sd0: "c0 sdiv ?sc = c0 div ?sc" "c0 smod ?sc = c0 mod ?sc"
    using c0(1) sc(1) by (simp_all add: sdiv_nonneg smod_nonneg)
  have sd1: "(c0 + d) sdiv ?sc = c0 div ?sc" "(c0 + d) smod ?sc = c0 mod ?sc + d"
    using c0(1) d(1) sc(1) dm by (simp_all add: sdiv_nonneg smod_nonneg)
  have "2 * ((c0 div ?sc) * rows t * ?sc + r * ?sc + (c0 mod ?sc + d))
      = 2 * ((c0 div ?sc) * rows t * ?sc + r * ?sc + c0 mod ?sc) + 2 * d"
    by (simp add: algebra_simps)
  then show "idx_addr t ptr (r, c0 + d) = idx_addr t ptr (r, c0) + word_of_int (2 * d)"
    unfolding idx_addr_def fst_conv snd_conv sz sd0 sd1
    by (simp only: of_int_add add.assoc)
  have "8 dvd c0 mod ?sc" using sc(2) c0(2) by (simp add: dvd_mod)
  then have "8 dvd (c0 div ?sc) * rows t * ?sc + r * ?sc + c0 mod ?sc"
    using sc(2) by simp
  then obtain N where N: "(c0 div ?sc) * rows t * ?sc + r * ?sc + c0 mod ?sc = 8 * N" ..
  have "(word_of_int (2 * (8 * N)) :: 'a word) = push_bit 4 (word_of_int N)"
    by (simp add: push_bit_eq_mult)
  then have "idx_addr t ptr (r, c0) = ptr + push_bit 4 (word_of_int N)"
    unfolding idx_addr_def fst_conv snd_conv sz sd0 N by (simp only:)
  then show "\<exists>N. idx_addr t ptr (r, c0) = ptr + push_bit 4 (word_of_int N)" ..
qed

lemma idx_add_col:
  fixes ptr :: "'a::len word"
  assumes v: "st_valid t" and sz: "sizeof_dtype t = 2"
    and al: "take_bit 4 ptr = 0"
    and c0: "0 \<le> c0" "8 dvd c0" and d: "0 \<le> d" "d < 8"
  shows "idx t ptr (r, c0 + d) = idx t ptr (r, c0) + word_of_int (2 * d)"
proof -
  from st_valid_period [OF v] obtain k where k: "swizzle_bytes t = 2 ^ k" by blast
  from idx_addr_add_col(2) [OF v sz c0 d] obtain N
    where N: "idx_addr t ptr (r, c0) = ptr + push_bit 4 (word_of_int N)" ..
  have A: "take_bit 4 (idx_addr t ptr (r, c0)) = 0"
    unfolding N by (simp only: take_bit_add_push_bit al)
  have "0 \<le> 2 * d" "2 * d < 2 ^ 4" using d by simp_all
  then have "take_bit 4 (2 * d) = 2 * d" by (rule take_bit_int_eq_self)
  then have x: "take_bit 4 (word_of_int (2 * d) :: 'a word) = word_of_int (2 * d)"
    by (simp only: take_bit_of_int)
  show ?thesis
    unfolding idx_swz [OF k] idx_addr_add_col(1) [OF v sz c0 d]
    by (rule swz_add_low [OF A x])
qed

lemma st_subtile_idx_parent:
  "st_subtile_idx s ptr (r, c) = idx (ST s) ptr (r + row_offset s, c + col_offset s)"
  unfolding st_subtile_idx_def idx_def underlying_rows_def
  by (simp only: fst_conv snd_conv)

lemma st_idx_add_col:
  fixes S :: "'a::len word shared_tile"
  assumes ok: "two_byte_tile_ok S" and sz: "sizeof_dtype (st_type S) = 2"
    and c0: "0 \<le> c0" "8 dvd c0" and d: "0 \<le> d" "d < 8"
  shows "st_idx S (st_data S) (r, c0 + d) = st_idx S (st_data S) (r, c0) + word_of_int (2 * d)"
proof (cases S)
  case (Root t p)
  with ok sz have "st_valid t" "sizeof_dtype t = 2" "take_bit 4 p = 0"
    by (simp_all add: two_byte_tile_ok_def)
  from idx_add_col [OF this c0 d] show ?thesis by (simp add: Root)
next
  case (Subtile s)
  with ok sz have v: "st_valid (ST s)" "sizeof_dtype (ST s) = 2" "take_bit 4 (data s) = 0"
    and o: "0 \<le> col_offset s" "8 dvd col_offset s"
    by (simp_all add: two_byte_tile_ok_def)
  have c: "0 \<le> c0 + col_offset s" "8 dvd c0 + col_offset s" using c0 o by simp_all
  have e: "c0 + d + col_offset s = (c0 + col_offset s) + d" by simp
  show ?thesis
    unfolding Subtile st_idx.simps st_data.simps st_subtile_idx_parent e
    by (rule idx_add_col [OF v c d])
qed

lemma lane_quarter:
  assumes "l \<in> set lanes"
  shows "0 \<le> l sdiv 4" "l sdiv 4 < 8" "0 \<le> l smod 4" "l smod 4 < 4"
proof -
  from assms have l: "0 \<le> l" "l \<le> 31" by (simp_all add: lanes_def)
  then have e: "l sdiv 4 = l div 4" "l smod 4 = l mod 4"
    by (simp_all add: sdiv_nonneg smod_nonneg)
  from l show "0 \<le> l sdiv 4" "l sdiv 4 < 8" "0 \<le> l smod 4" "l smod 4 < 4"
    unfolding e by simp_all
qed

lemma matrix_row_of_lane:
  fixes q :: int
  assumes "0 \<le> q" "q < 8"
  shows "q smod 16 = q" "q sdiv 16 = 0"
    and "(8 + q) smod 16 = 8 + q" "(8 + q) sdiv 16 = 0"
    and "(16 + q) smod 16 = q" "(16 + q) sdiv 16 = 1"
    and "(24 + q) smod 16 = 8 + q" "(24 + q) sdiv 16 = 1"
proof -
  have 1: "q mod 16 = q" "q div 16 = 0" using assms by simp_all
  have 2: "(8 + q) mod 16 = 8 + q" "(8 + q) div 16 = 0" using assms by simp_all
  have 3: "(16 + q) mod 16 = q" "(16 + q) div 16 = 1" using assms by simp_all
  have e: "24 + q = 16 * 1 + (8 + q)" by simp
  have 4: "(24 + q) mod 16 = 8 + q" "(24 + q) div 16 = 1"
    using assms int_mod_pos_eq [OF e] int_div_pos_eq [OF e] by simp_all
  show "q smod 16 = q" "q sdiv 16 = 0"
    and "(8 + q) smod 16 = 8 + q" "(8 + q) sdiv 16 = 0"
    and "(16 + q) smod 16 = q" "(16 + q) sdiv 16 = 1"
    and "(24 + q) smod 16 = 8 + q" "(24 + q) sdiv 16 = 1"
    using assms 1 2 3 4 by (simp_all add: sdiv_nonneg smod_nonneg)
qed

lemma row_matrix_addresses:
  fixes S :: "'a::len word shared_tile" and RT :: rt and i j l :: int
  assumes sz: "sizeof_dtype (st_type S) = 2"
    and ok: "two_byte_tile_ok S" and tc: "tile_size_col RT = 16" and j: "0 \<le> j"
    and l: "l \<in> set lanes"
  defines "row \<equiv> i * tile_size_row RT + l sdiv 4"
    and "col \<equiv> j * tile_size_col RT + 2 * (l smod 4)"
  defines "addr \<equiv> \<lambda>x. st_idx S (st_data S)
                  (i * tile_size_row RT + x smod 16, j * 16 + (x sdiv 16) * 8)"
  shows "addr (l sdiv 4) + word_of_int (4 * (l smod 4)) = st_idx S (st_data S) (row + 0, col + 0)"
    and "addr (8 + l sdiv 4) + word_of_int (4 * (l smod 4)) = st_idx S (st_data S) (row + 8, col + 0)"
    and "addr (16 + l sdiv 4) + word_of_int (4 * (l smod 4)) = st_idx S (st_data S) (row + 0, col + 8)"
    and "addr (24 + l sdiv 4) + word_of_int (4 * (l smod 4)) = st_idx S (st_data S) (row + 8, col + 8)"
proof -
  let ?T = "tile_size_row RT"
  let ?d = "st_data S"
  note q = lane_quarter [OF l]
  note mr = matrix_row_of_lane [OF q(1,2)]
  have c0: "0 \<le> j * 16" "8 dvd j * 16" "0 \<le> j * 16 + 8" "8 dvd j * 16 + 8"
    using j by simp_all
  have d: "0 \<le> 2 * (l smod 4)" "2 * (l smod 4) < 8" using q(3,4) by simp_all
  have w: "(word_of_int (2 * (2 * (l smod 4))) :: 'a word) = word_of_int (4 * (l smod 4))"
    by simp
  have s0: "st_idx S ?d (r, j * 16 + 2 * (l smod 4))
          = st_idx S ?d (r, j * 16) + word_of_int (4 * (l smod 4))" for r
    using st_idx_add_col [OF ok sz c0(1,2) d, of r] by (simp only: w)
  have s8: "st_idx S ?d (r, j * 16 + 2 * (l smod 4) + 8)
          = st_idx S ?d (r, j * 16 + 8) + word_of_int (4 * (l smod 4))" for r
  proof -
    have "j * 16 + 2 * (l smod 4) + 8 = (j * 16 + 8) + 2 * (l smod 4)" by simp
    then show ?thesis
      using st_idx_add_col [OF ok sz c0(3,4) d, of r] by (simp only: w)
  qed
  have p0: "(i * ?T + (l sdiv 4) smod 16, j * 16 + ((l sdiv 4) sdiv 16) * 8)
          = (i * ?T + l sdiv 4, j * 16)"
    unfolding mr by simp
  have p1: "(i * ?T + (8 + l sdiv 4) smod 16, j * 16 + ((8 + l sdiv 4) sdiv 16) * 8)
          = (i * ?T + l sdiv 4 + 8, j * 16)"
    unfolding mr by simp
  have p2: "(i * ?T + (16 + l sdiv 4) smod 16, j * 16 + ((16 + l sdiv 4) sdiv 16) * 8)
          = (i * ?T + l sdiv 4, j * 16 + 8)"
    unfolding mr by simp
  have p3: "(i * ?T + (24 + l sdiv 4) smod 16, j * 16 + ((24 + l sdiv 4) sdiv 16) * 8)
          = (i * ?T + l sdiv 4 + 8, j * 16 + 8)"
    unfolding mr by simp
  show "addr (l sdiv 4) + word_of_int (4 * (l smod 4)) = st_idx S (st_data S) (row + 0, col + 0)"
    unfolding addr_def p0 row_def col_def tc add_0_right by (rule s0 [symmetric])
  show "addr (8 + l sdiv 4) + word_of_int (4 * (l smod 4)) = st_idx S (st_data S) (row + 8, col + 0)"
    unfolding addr_def p1 row_def col_def tc add_0_right by (rule s0 [symmetric])
  show "addr (16 + l sdiv 4) + word_of_int (4 * (l smod 4)) = st_idx S (st_data S) (row + 0, col + 8)"
    unfolding addr_def p2 row_def col_def tc add_0_right by (rule s8 [symmetric])
  show "addr (24 + l sdiv 4) + word_of_int (4 * (l smod 4)) = st_idx S (st_data S) (row + 8, col + 8)"
    unfolding addr_def p3 row_def col_def tc add_0_right by (rule s8 [symmetric])
qed

lemma loaded_two_byte_row:
  fixes S :: "'a::len word shared_tile" and RT :: rt and i j l :: int
  assumes sz: "sizeof_dtype (st_type S) = 2" and lay: "layout RT = rt_layout_row"
    and hw: "ldsm4 E = ldmatrix_x4"
    and ok: "two_byte_tile_ok S" and tc: "tile_size_col RT = 16" and j: "0 \<le> j"
    and l: "l \<in> set lanes"
  defines "row \<equiv> i * tile_size_row RT + l sdiv 4"
    and "col \<equiv> j * tile_size_col RT + 2 * (l smod 4)"
  shows "load_tile E RT S mem l i j = Some
     [to_reg E (mem (st_idx S (st_data S) (row + 0, col + 0)),
                mem (st_idx S (st_data S) (row + 0, col + 0) + 2)),
      to_reg E (mem (st_idx S (st_data S) (row + 8, col + 0)),
                mem (st_idx S (st_data S) (row + 8, col + 0) + 2)),
      to_reg E (mem (st_idx S (st_data S) (row + 0, col + 8)),
                mem (st_idx S (st_data S) (row + 0, col + 8) + 2)),
      to_reg E (mem (st_idx S (st_data S) (row + 8, col + 8)),
                mem (st_idx S (st_data S) (row + 8, col + 8) + 2))]"
proof -
  note a = row_matrix_addresses [OF sz ok tc j l, of i, folded row_def col_def]
  have ld: "ldmatrix_x4 mem
      (\<lambda>x. st_idx S (st_data S) (i * tile_size_row RT + x smod 16, j * 16 + (x sdiv 16) * 8)) l
    = ((mem (st_idx S (st_data S) (row + 0, col + 0)),
        mem (st_idx S (st_data S) (row + 0, col + 0) + 2)),
       (mem (st_idx S (st_data S) (row + 8, col + 0)),
        mem (st_idx S (st_data S) (row + 8, col + 0) + 2)),
       (mem (st_idx S (st_data S) (row + 0, col + 8)),
        mem (st_idx S (st_data S) (row + 0, col + 8) + 2)),
       (mem (st_idx S (st_data S) (row + 8, col + 8)),
        mem (st_idx S (st_data S) (row + 8, col + 8) + 2)))"
    unfolding ldmatrix_x4_def Let_def by (simp only: a)
  show ?thesis
    unfolding load_tile_def Let_def hw tc ld
    by (simp add: sz lay)
qed

lemma store_tile_two_byte_row:
  fixes S :: "'a::len word shared_tile"
  assumes sz: "sizeof_dtype (st_type S) = 2" and nh: "\<not> KITTENS_HOPPER E"
    and lay: "layout RT = rt_layout_row" and hw: "ldsm4 E = ldmatrix_x4"
    and ok: "two_byte_tile_ok S" and tc: "tile_size_col RT = 16" and j: "0 \<le> j"
    and cv: "\<And>p. to_shared E (to_reg E p) = p"
    and R: "\<And>l. l \<in> set lanes \<Longrightarrow>
              regs l i j = (case load_tile E RT S mem l i j of None \<Rightarrow> dst l i j | Some ds \<Rightarrow> ds)"
    and op: "op \<in> set (store_tile E RT S regs i j)"
  shows "\<exists>a. op = Sts a (mem a)"
  using op
  apply (clarsimp simp add: store_tile_def Let_def sz nh lay sts_packed_def)
  subgoal for l
    using R [of l] loaded_two_byte_row [where l = l and i = i and mem = mem, OF sz lay hw ok tc j]
    by (auto simp add: cv)
  done

lemma sixteen_split:
  fixes x :: int
  assumes "x = 16 * k + r" "0 \<le> r" "r < 16" "0 \<le> k"
  shows "x smod 16 = r" "x sdiv 16 = k"
proof -
  have "0 \<le> x" using assms by simp
  then have "x smod 16 = x mod 16" "x sdiv 16 = x div 16"
    by (simp_all add: sdiv_nonneg smod_nonneg)
  then show "x smod 16 = r" "x sdiv 16 = k"
    using int_mod_pos_eq [OF assms(1-3)] int_div_pos_eq [OF assms(1-3)] by simp_all
qed

lemma col_matrix_addresses:
  fixes S :: "'a::len word shared_tile" and RT :: rt and i j l :: int
  assumes sz: "sizeof_dtype (st_type S) = 2"
    and ok: "two_byte_tile_ok S" and tc: "tile_size_col RT = 16" and j: "0 \<le> j"
    and l: "l \<in> set lanes"
  defines "row \<equiv> i * tile_size_row RT + 2 * (l smod 4)"
    and "col \<equiv> j * tile_size_col RT + l sdiv 4"
  defines "addr \<equiv> \<lambda>x. st_idx S (st_data S)
                  (i * tile_size_row RT + x smod 16, j * 16 + (x sdiv 16) * 8)"
  shows "addr (2 * (l smod 4)) + word_of_int (2 * (l sdiv 4)) = st_idx S (st_data S) (row + 0, col + 0)"
    and "addr (2 * (l smod 4) + 1) + word_of_int (2 * (l sdiv 4)) = st_idx S (st_data S) (row + 1, col + 0)"
    and "addr (8 + 2 * (l smod 4)) + word_of_int (2 * (l sdiv 4)) = st_idx S (st_data S) (row + 8, col + 0)"
    and "addr (8 + 2 * (l smod 4) + 1) + word_of_int (2 * (l sdiv 4)) = st_idx S (st_data S) (row + 9, col + 0)"
    and "addr (16 + 2 * (l smod 4)) + word_of_int (2 * (l sdiv 4)) = st_idx S (st_data S) (row + 0, col + 8)"
    and "addr (16 + 2 * (l smod 4) + 1) + word_of_int (2 * (l sdiv 4)) = st_idx S (st_data S) (row + 1, col + 8)"
    and "addr (24 + 2 * (l smod 4)) + word_of_int (2 * (l sdiv 4)) = st_idx S (st_data S) (row + 8, col + 8)"
    and "addr (24 + 2 * (l smod 4) + 1) + word_of_int (2 * (l sdiv 4)) = st_idx S (st_data S) (row + 9, col + 8)"
proof -
  let ?T = "tile_size_row RT"
  let ?d = "st_data S"
  let ?m = "l smod 4"
  let ?w = "word_of_int (2 * (l sdiv 4)) :: 'a word"
  note q = lane_quarter [OF l]
  have c0: "0 \<le> j * 16" "8 dvd j * 16" "0 \<le> j * 16 + 8" "8 dvd j * 16 + 8"
    using j by simp_all
  have s0: "st_idx S ?d (r, j * 16 + l sdiv 4) = st_idx S ?d (r, j * 16) + ?w" for r
    by (rule st_idx_add_col [OF ok sz c0(1,2) q(1,2)])
  have s8: "st_idx S ?d (r, j * 16 + l sdiv 4 + 8) = st_idx S ?d (r, j * 16 + 8) + ?w" for r
  proof -
    have "j * 16 + l sdiv 4 + 8 = (j * 16 + 8) + l sdiv 4" by simp
    then show ?thesis
      using st_idx_add_col [OF ok sz c0(3,4) q(1,2), of r] by (simp only:)
  qed
  have k: "(0::int) \<le> 0" "(0::int) \<le> 1" by simp_all
  have p00: "(i * ?T + (2 * ?m) smod 16, j * 16 + ((2 * ?m) sdiv 16) * 8)
           = (i * ?T + 2 * ?m, j * 16)"
    using sixteen_split [of "2 * ?m" 0 "2 * ?m"] q by simp
  have p01: "(i * ?T + (2 * ?m + 1) smod 16, j * 16 + ((2 * ?m + 1) sdiv 16) * 8)
           = (i * ?T + 2 * ?m + 1, j * 16)"
    using sixteen_split [of "2 * ?m + 1" 0 "2 * ?m + 1"] q by simp
  have p10: "(i * ?T + (8 + 2 * ?m) smod 16, j * 16 + ((8 + 2 * ?m) sdiv 16) * 8)
           = (i * ?T + 2 * ?m + 8, j * 16)"
    using sixteen_split [of "8 + 2 * ?m" 0 "8 + 2 * ?m"] q by simp
  have p11: "(i * ?T + (8 + 2 * ?m + 1) smod 16, j * 16 + ((8 + 2 * ?m + 1) sdiv 16) * 8)
           = (i * ?T + 2 * ?m + 9, j * 16)"
    using sixteen_split [of "8 + 2 * ?m + 1" 0 "8 + 2 * ?m + 1"] q by simp
  have p20: "(i * ?T + (16 + 2 * ?m) smod 16, j * 16 + ((16 + 2 * ?m) sdiv 16) * 8)
           = (i * ?T + 2 * ?m, j * 16 + 8)"
    using sixteen_split [of "16 + 2 * ?m" 1 "2 * ?m"] q by simp
  have p21: "(i * ?T + (16 + 2 * ?m + 1) smod 16, j * 16 + ((16 + 2 * ?m + 1) sdiv 16) * 8)
           = (i * ?T + 2 * ?m + 1, j * 16 + 8)"
    using sixteen_split [of "16 + 2 * ?m + 1" 1 "2 * ?m + 1"] q by simp
  have p30: "(i * ?T + (24 + 2 * ?m) smod 16, j * 16 + ((24 + 2 * ?m) sdiv 16) * 8)
           = (i * ?T + 2 * ?m + 8, j * 16 + 8)"
    using sixteen_split [of "24 + 2 * ?m" 1 "8 + 2 * ?m"] q by simp
  have p31: "(i * ?T + (24 + 2 * ?m + 1) smod 16, j * 16 + ((24 + 2 * ?m + 1) sdiv 16) * 8)
           = (i * ?T + 2 * ?m + 9, j * 16 + 8)"
    using sixteen_split [of "24 + 2 * ?m + 1" 1 "8 + 2 * ?m + 1"] q by simp
  show "addr (2 * (l smod 4)) + word_of_int (2 * (l sdiv 4)) = st_idx S (st_data S) (row + 0, col + 0)"
    unfolding addr_def p00 row_def col_def tc add_0_right by (rule s0 [symmetric])
  show "addr (2 * (l smod 4) + 1) + word_of_int (2 * (l sdiv 4)) = st_idx S (st_data S) (row + 1, col + 0)"
    unfolding addr_def p01 row_def col_def tc add_0_right by (rule s0 [symmetric])
  show "addr (8 + 2 * (l smod 4)) + word_of_int (2 * (l sdiv 4)) = st_idx S (st_data S) (row + 8, col + 0)"
    unfolding addr_def p10 row_def col_def tc add_0_right by (rule s0 [symmetric])
  show "addr (8 + 2 * (l smod 4) + 1) + word_of_int (2 * (l sdiv 4)) = st_idx S (st_data S) (row + 9, col + 0)"
    unfolding addr_def p11 row_def col_def tc add_0_right by (rule s0 [symmetric])
  show "addr (16 + 2 * (l smod 4)) + word_of_int (2 * (l sdiv 4)) = st_idx S (st_data S) (row + 0, col + 8)"
    unfolding addr_def p20 row_def col_def tc add_0_right by (rule s8 [symmetric])
  show "addr (16 + 2 * (l smod 4) + 1) + word_of_int (2 * (l sdiv 4)) = st_idx S (st_data S) (row + 1, col + 8)"
    unfolding addr_def p21 row_def col_def tc add_0_right by (rule s8 [symmetric])
  show "addr (24 + 2 * (l smod 4)) + word_of_int (2 * (l sdiv 4)) = st_idx S (st_data S) (row + 8, col + 8)"
    unfolding addr_def p30 row_def col_def tc add_0_right by (rule s8 [symmetric])
  show "addr (24 + 2 * (l smod 4) + 1) + word_of_int (2 * (l sdiv 4)) = st_idx S (st_data S) (row + 9, col + 8)"
    unfolding addr_def p31 row_def col_def tc add_0_right by (rule s8 [symmetric])
qed

lemma loaded_two_byte_col:
  fixes S :: "'a::len word shared_tile" and RT :: rt and i j l :: int
  assumes sz: "sizeof_dtype (st_type S) = 2" and lay: "layout RT = rt_layout_col"
    and hw: "ldsm4t E = ldmatrix_x4_trans"
    and ok: "two_byte_tile_ok S" and tc: "tile_size_col RT = 16" and j: "0 \<le> j"
    and l: "l \<in> set lanes"
  defines "row \<equiv> i * tile_size_row RT + 2 * (l smod 4)"
    and "col \<equiv> j * tile_size_col RT + l sdiv 4"
  shows "load_tile E RT S mem l i j = Some
     [to_reg E (mem (st_idx S (st_data S) (row + 0, col + 0)),
                mem (st_idx S (st_data S) (row + 1, col + 0))),
      to_reg E (mem (st_idx S (st_data S) (row + 0, col + 8)),
                mem (st_idx S (st_data S) (row + 1, col + 8))),
      to_reg E (mem (st_idx S (st_data S) (row + 8, col + 0)),
                mem (st_idx S (st_data S) (row + 9, col + 0))),
      to_reg E (mem (st_idx S (st_data S) (row + 8, col + 8)),
                mem (st_idx S (st_data S) (row + 9, col + 8)))]"
proof -
  note a = col_matrix_addresses [OF sz ok tc j l, of i, folded row_def col_def]
  have ld: "ldmatrix_x4_trans mem
      (\<lambda>x. st_idx S (st_data S) (i * tile_size_row RT + x smod 16, j * 16 + (x sdiv 16) * 8)) l
    = ((mem (st_idx S (st_data S) (row + 0, col + 0)),
        mem (st_idx S (st_data S) (row + 1, col + 0))),
       (mem (st_idx S (st_data S) (row + 8, col + 0)),
        mem (st_idx S (st_data S) (row + 9, col + 0))),
       (mem (st_idx S (st_data S) (row + 0, col + 8)),
        mem (st_idx S (st_data S) (row + 1, col + 8))),
       (mem (st_idx S (st_data S) (row + 8, col + 8)),
        mem (st_idx S (st_data S) (row + 9, col + 8))))"
    unfolding ldmatrix_x4_trans_def Let_def by (simp only: a)
  show ?thesis
    unfolding load_tile_def Let_def hw tc ld
    by (simp add: sz lay)
qed

lemma store_tile_two_byte_col:
  fixes S :: "'a::len word shared_tile"
  assumes sz: "sizeof_dtype (st_type S) = 2" and nh: "\<not> KITTENS_HOPPER E"
    and lay: "layout RT = rt_layout_col" and hw: "ldsm4t E = ldmatrix_x4_trans"
    and ok: "two_byte_tile_ok S" and tc: "tile_size_col RT = 16" and j: "0 \<le> j"
    and cv: "\<And>p. to_shared E (to_reg E p) = p"
    and R: "\<And>l. l \<in> set lanes \<Longrightarrow>
              regs l i j = (case load_tile E RT S mem l i j of None \<Rightarrow> dst l i j | Some ds \<Rightarrow> ds)"
    and op: "op \<in> set (store_tile E RT S regs i j)"
  shows "\<exists>a. op = Sts a (mem a)"
  using op
  apply (clarsimp simp add: store_tile_def Let_def sz nh lay)
  subgoal for l
    using R [of l] loaded_two_byte_col [where l = l and i = i and mem = mem, OF sz lay hw ok tc j]
    by (auto simp add: cv)
  done

lemma store_tile_after_load:
  fixes S :: "'a::len word shared_tile"
  assumes cv: "conversion_exact E"
    and hw: "sizeof_dtype (st_type S) = 1
               \<or> sizeof_dtype (st_type S) = 2 \<and> KITTENS_HOPPER E
             \<longrightarrow> grouped_store_undoes_load E"
    and nh: "sizeof_dtype (st_type S) = 2 \<and> \<not> KITTENS_HOPPER E
             \<longrightarrow> ptx_loads E \<and> two_byte_tile_ok S \<and> tile_size_col RT = 16"
    and sup: "\<not> (sizeof_dtype (st_type S) = 1 \<and> layout RT = rt_layout_col)"
    and j: "0 \<le> j"
    and R: "\<And>l. l \<in> set lanes \<Longrightarrow>
              regs l i j = (case load_tile E RT S mem l i j of None \<Rightarrow> dst l i j | Some ds \<Rightarrow> ds)"
  shows "fold (exec E) (store_tile E RT S regs i j) mem = mem"
proof -
  from cv have cv': "\<And>p. to_shared E (to_reg E p) = p"
    unfolding conversion_exact_def by blast
  consider (g) "sizeof_dtype (st_type S) = 2 \<and> KITTENS_HOPPER E
             \<or> sizeof_dtype (st_type S) = 1 \<and> layout RT = rt_layout_row"
    | (nr) "sizeof_dtype (st_type S) = 2" "\<not> KITTENS_HOPPER E" "layout RT = rt_layout_row"
    | (nc) "sizeof_dtype (st_type S) = 2" "\<not> KITTENS_HOPPER E" "layout RT = rt_layout_col"
    | (r) "sizeof_dtype (st_type S) = 4" "layout RT = rt_layout_row"
    | (c) "sizeof_dtype (st_type S) \<noteq> 2" "sizeof_dtype (st_type S) \<noteq> 1"
          "\<not> (layout RT = rt_layout_row \<and> sizeof_dtype (st_type S) = 4)"
    using sup by (cases "layout RT") auto
  then show ?thesis
  proof cases
    case g
    with hw have h: "grouped_store_undoes_load E" by blast
    show ?thesis
      by (rule store_tile_stsm [where dst = dst, OF g cv' h]) (rule R)
  next
    case nr
    with nh have h: "ldsm4 E = ldmatrix_x4" "two_byte_tile_ok S" "tile_size_col RT = 16"
      by (simp_all add: ptx_loads_def)
    show ?thesis
      by (rule exec_writes_fixed)
        (rule store_tile_two_byte_row [where dst = dst, OF nr h j cv'], rule R)
  next
    case nc
    with nh have h: "ldsm4t E = ldmatrix_x4_trans" "two_byte_tile_ok S" "tile_size_col RT = 16"
      by (simp_all add: ptx_loads_def)
    show ?thesis
      by (rule exec_writes_fixed)
        (rule store_tile_two_byte_col [where dst = dst, OF nc h j cv'], rule R)
  next
    case r
    show ?thesis
      by (rule exec_writes_fixed) (rule store_tile_row32 [where dst = dst, OF r cv'], rule R)
  next
    case c
    show ?thesis
      by (rule exec_writes_fixed) (rule store_tile_col_major [where dst = dst, OF c cv'], rule R)
  qed
qed

text \<open>
  The round trip where \<open>load\<close> has a case.  Let converting to the register type and
  back be exact.  Then for every element size and fragment orientation but one-byte
  column-major, for root tiles and subtile views, \<open>load\<close> followed by \<open>store\<close> of the
  loaded fragment leaves shared memory exactly as it was; in the four-byte row-major
  case the swap chosen by the lane parity is undone by the same swap in \<open>store\<close>.
  Where both directions go through the grouped instructions (one-byte tiles, and
  two-byte tiles on Hopper) the grouped store is taken to undo the grouped load at the
  same addresses; where a two-byte tile is loaded by the grouped load and stored by
  single stores (the build that is not Hopper) the grouped load is the \<open>ldmatrix\<close>
  instruction and the tile is valid, aligned to 16 bytes and made of base tiles 16
  columns wide.
\<close>

lemma load_store_round_trip_supported:
  fixes S :: "'a::len word shared_tile"
  assumes cv: "conversion_exact E"
    and hw: "sizeof_dtype (st_type S) = 1
               \<or> sizeof_dtype (st_type S) = 2 \<and> KITTENS_HOPPER E
             \<longrightarrow> grouped_store_undoes_load E"
    and nh: "sizeof_dtype (st_type S) = 2 \<and> \<not> KITTENS_HOPPER E
             \<longrightarrow> ptx_loads E \<and> two_byte_tile_ok S \<and> tile_size_col RT = 16"
    and sup: "\<not> (sizeof_dtype (st_type S) = 1 \<and> layout RT = rt_layout_col)"
    and hh: "rt_height RT = st_height S" and ww: "rt_width RT = st_width S"
  shows "store_after_load E RT S mem dst = Inr mem"
proof -
  let ?regs = "\<lambda>laneid.
        if laneid \<in> set lanes
        then fold (\<lambda>i. fold (load_body E RT S mem laneid i) [0..rt_width RT - 1])
               [0..rt_height RT - 1] (dst laneid)
        else dst laneid"
  have ld: "load E RT S mem dst = Inr ?regs"
    by (simp add: load_def hh ww)
  have "fold (\<lambda>j. fold (exec E) (store_tile E RT S ?regs i j)) [0..rt_width RT - 1] mem = mem"
    if i: "i \<in> set [0..rt_height RT - 1]" for i
  proof (rule fold_fixed)
    fix j assume j: "j \<in> set [0..rt_width RT - 1]"
    then have j0: "0 \<le> j" by simp
    show "fold (exec E) (store_tile E RT S ?regs i j) mem = mem"
      by (rule store_tile_after_load [OF cv hw nh sup j0]) (rule load_regs_at [OF ld _ i j])
  qed
  then have "fold (\<lambda>i. fold (\<lambda>j. fold (exec E) (store_tile E RT S ?regs i j))
                 [0..rt_width RT - 1]) [0..rt_height RT - 1] mem = mem"
    by (rule fold_fixed)
  then have "store E RT S ?regs mem = Inr mem"
    by (simp add: store_def hh ww)
  then show ?thesis
    by (simp only: store_after_load_def ld sum.case)
qed

lemma load_store_round_trip_supported_instance:
  "store_after_load (ptx_env True)
     \<lparr>rt_height = 1, rt_width = 1, tile_size_row = 16, tile_size_col = 16,
      layout = rt_layout_row\<rparr>
     (Root \<lparr>sizeof_dtype = 2, packing_num = 1, rows = 16, cols = 16\<rparr> (0 :: 32 word))
     (\<lambda>a. uint a) (\<lambda>l i j. [])
   = Inr (\<lambda>a. uint a)
   \<and> store_after_load (ptx_env False)
     \<lparr>rt_height = 1, rt_width = 1, tile_size_row = 16, tile_size_col = 16,
      layout = rt_layout_col\<rparr>
     (Root \<lparr>sizeof_dtype = 2, packing_num = 1, rows = 16, cols = 16\<rparr> (0 :: 32 word))
     (\<lambda>a. uint a) (\<lambda>l i j. [])
   = Inr (\<lambda>a. uint a)"
proof -
  let ?RT = "\<lparr>rt_height = 1, rt_width = 1, tile_size_row = 16, tile_size_col = 16,
      layout = rt_layout_row\<rparr>"
  let ?RC = "\<lparr>rt_height = 1, rt_width = 1, tile_size_row = 16, tile_size_col = 16,
      layout = rt_layout_col\<rparr>"
  let ?S = "Root \<lparr>sizeof_dtype = 2, packing_num = 1, rows = 16, cols = 16\<rparr> (0 :: 32 word)"
  have g: "sizeof_dtype (st_type ?S) = 1
             \<or> sizeof_dtype (st_type ?S) = 2 \<and> KITTENS_HOPPER (ptx_env h :: (32 word, int, int) env)
           \<longrightarrow> grouped_store_undoes_load (ptx_env h :: (32 word, int, int) env)" for h
    by (simp add: ptx_env_ok)
  have v: "two_byte_tile_ok ?S"
    by (simp add: two_byte_tile_ok_def st_valid_def st_static_asserts_def smod_eq_0_iff
        TILE_ROW_DIM_def TILE_COL_DIM_def)
  have n: "sizeof_dtype (st_type ?S) = 2 \<and> \<not> KITTENS_HOPPER (ptx_env h :: (32 word, int, int) env)
           \<longrightarrow> ptx_loads (ptx_env h :: (32 word, int, int) env) \<and> two_byte_tile_ok ?S
               \<and> tile_size_col RT' = 16" if "tile_size_col RT' = 16" for h RT'
    using v that by (simp add: ptx_loads_def ptx_env_def)
  have s: "\<not> (sizeof_dtype (st_type ?S) = 1 \<and> layout RT' = rt_layout_col)" for RT'
    by simp
  have h: "rt_height ?RT = st_height ?S" "rt_width ?RT = st_width ?S"
    "rt_height ?RC = st_height ?S" "rt_width ?RC = st_width ?S"
    by (simp_all add: st_height_def st_width_def TILE_ROW_DIM_def TILE_COL_DIM_def
        signed_divide_int_def)
  have 1: "store_after_load (ptx_env True) ?RT ?S (\<lambda>a. uint a) (\<lambda>l i j. []) = Inr (\<lambda>a. uint a)"
    by (rule load_store_round_trip_supported [OF ptx_env_ok(1) g n s h(1,2)]) simp
  have 2: "store_after_load (ptx_env False) ?RC ?S (\<lambda>a. uint a) (\<lambda>l i j. []) = Inr (\<lambda>a. uint a)"
    by (rule load_store_round_trip_supported [OF ptx_env_ok(1) g n s h(3,4)]) simp
  from 1 2 show ?thesis by (rule conjI)
qed

subsection \<open>Atomic add\<close>

lemma atomic_add_tile_adds: "list_all is_adds (atomic_add_tile E RT S src i j)"
  by (auto simp add: atomic_add_tile_def Let_def list_all_iff adds_packed_def case_prod_beta)

lemma atomic_add_tile_store_tile:
  assumes "\<not> (sizeof_dtype (st_type S) = 2 \<and> KITTENS_HOPPER E)"
    and "sizeof_dtype (st_type S) \<noteq> 1"
  shows "map as_store (atomic_add_tile E RT S src i j) = store_tile E RT S src i j"
  using assms
  by (simp add: atomic_add_tile_def store_tile_def Let_def map_concat comp_def
      adds_packed_def sts_packed_def case_prod_beta)

lemma added_Nil: "added [] a = 0"
  by (simp add: added_def)

lemma added_Cons: "added (w # ws) a = (if fst w = a then snd w else 0) + added ws a"
  by (simp add: added_def)

lemma added_append: "added (xs @ ys) a = added xs a + added ys a"
  by (simp add: added_def)

lemma added_concat: "added (concat xss) a = sum_list (map (\<lambda>xs. added xs a) xss)"
  by (induction xss) (simp_all add: added_Nil added_append)

lemma sum_list_map_cong_set:
  "(\<And>x. x \<in> set xs \<Longrightarrow> f x = g x) \<Longrightarrow> sum_list (map f xs) = sum_list (map g xs)"
  by (induction xs) simp_all

lemma fold_fold_concat:
  "fold (\<lambda>x. fold g (f x)) xs s = fold g (concat (map f xs)) s"
  by (induction xs arbitrary: s) simp_all

lemma fold_exec_adds:
  fixes mem :: "'a::len word \<Rightarrow> 'u::comm_monoid_add"
  assumes "list_all is_adds ops"
  shows "fold (exec E) ops mem = (\<lambda>a. mem a + added (concat (map ptx_writes ops)) a)"
  using assms
proof (induction ops arbitrary: mem)
  case Nil
  then show ?case by (simp add: added_Nil)
next
  case (Cons x xs)
  from Cons.prems obtain b v where x: "x = Adds b v" by (cases x) simp_all
  from Cons.prems have "list_all is_adds xs" by simp
  from Cons.IH [OF this] show ?case
    by (auto simp add: x added_Cons fun_eq_iff add.assoc)
qed

lemma store_tile_no_adds: "list_all (\<lambda>x. \<not> is_adds x) (store_tile E RT S src i j)"
  by (auto simp add: store_tile_def Let_def list_all_iff sts_packed_def case_prod_beta)

lemma fold_exec_stores:
  assumes "ptx_stores E" and "list_all (\<lambda>x. \<not> is_adds x) ops"
  shows "fold (exec E) ops mem = overwritten (concat (map ptx_writes ops)) mem"
  using assms(2)
proof (induction ops arbitrary: mem)
  case Nil
  then show ?case by (simp add: overwritten_def)
next
  case (Cons x xs)
  from Cons.prems have n: "\<not> is_adds x" and r: "list_all (\<lambda>x. \<not> is_adds x) xs" by simp_all
  from n assms(1) have "exec E x mem = overwritten (ptx_writes x) mem"
    by (cases x) (simp_all add: ptx_stores_def stmatrix_x4_def stmatrix_x4_trans_def
        overwritten_def)
  with Cons.IH [OF r] show ?case
    by (simp add: overwritten_def)
qed


lemma fold_fold_concat_fun:
  "fold (\<lambda>x. fold g (f x)) xs = fold g (concat (map f xs))"
  by (rule ext) (rule fold_fold_concat)

lemma concat_map_concat:
  "concat (map f (concat xss)) = concat (map (\<lambda>xs. concat (map f xs)) xss)"
  by (induction xss) simp_all

lemma ptx_writes_as_store: "ptx_writes (as_store x) = ptx_writes x"
  by (cases x) simp_all

lemma added_tile_single_stores:
  assumes "\<not> (sizeof_dtype (st_type S) = 2 \<and> KITTENS_HOPPER E)"
    and "sizeof_dtype (st_type S) \<noteq> 1"
  shows "concat (map ptx_writes (atomic_add_tile E RT S src i j))
       = concat (map ptx_writes (store_tile E RT S src i j))"
proof -
  have "concat (map ptx_writes (map as_store (atomic_add_tile E RT S src i j)))
      = concat (map ptx_writes (atomic_add_tile E RT S src i j))"
    by (simp add: comp_def ptx_writes_as_store)
  then show ?thesis
    by (simp only: atomic_add_tile_store_tile [OF assms])
qed

lemma added_tile_hopper_row:
  fixes S :: "'a::len word shared_tile" and src :: "'t regs"
    and E :: "('a word, 'u::comm_monoid_add, 't) env"
  assumes sz: "sizeof_dtype (st_type S) = 2" and hop: "KITTENS_HOPPER E"
    and lay: "layout RT = rt_layout_row"
    and ok: "two_byte_tile_ok S" and tc: "tile_size_col RT = 16" and j: "0 \<le> j"
  shows "added (concat (map ptx_writes (atomic_add_tile E RT S src i j))) a
       = added (concat (map ptx_writes (store_tile E RT S src i j))) a"
proof -
  have st: "store_tile E RT S src i j =
     [Stsm4 (\<lambda>l. st_idx S (st_data S)
                        (i * tile_size_row RT + l smod 16, j * 16 + (l sdiv 16) * 8))
         (\<lambda>l. (to_shared E (src l i j ! 0), to_shared E (src l i j ! 1),
               to_shared E (src l i j ! 2), to_shared E (src l i j ! 3)))]"
    by (simp add: store_tile_def Let_def sz hop lay tc)
  have at: "atomic_add_tile E RT S src i j = concat (map (\<lambda>laneid.
             (let row = i * tile_size_row RT + laneid sdiv 4;
                  col = j * tile_size_col RT + 2 * (laneid smod 4);
                  tmp0 = to_shared E (src laneid i j ! 0);
                  tmp1 = to_shared E (src laneid i j ! 1);
                  tmp2 = to_shared E (src laneid i j ! 2);
                  tmp3 = to_shared E (src laneid i j ! 3)
              in adds_packed 2 (st_idx S (st_data S) (row + 0, col + 0)) tmp0
               @ adds_packed 2 (st_idx S (st_data S) (row + 8, col + 0)) tmp1
               @ adds_packed 2 (st_idx S (st_data S) (row + 0, col + 8)) tmp2
               @ adds_packed 2 (st_idx S (st_data S) (row + 8, col + 8)) tmp3)) lanes)"
    by (simp add: atomic_add_tile_def Let_def sz lay)
  show ?thesis
    unfolding st at concat_map_concat list.map concat.simps append_Nil2 ptx_writes.simps
      stmatrix_x4_writes_def added_concat map_map comp_def
    apply (rule sum_list_map_cong_set)
    subgoal premises p for l
      unfolding Let_def row_matrix_addresses [OF sz ok tc j p, of i] fst_conv snd_conv
      by (simp add: adds_packed_def added_Cons added_Nil)
    done
qed

lemma added_tile_hopper_col:
  fixes S :: "'a::len word shared_tile" and src :: "'t regs"
    and E :: "('a word, 'u::comm_monoid_add, 't) env"
  assumes sz: "sizeof_dtype (st_type S) = 2" and hop: "KITTENS_HOPPER E"
    and lay: "layout RT \<noteq> rt_layout_row"
    and ok: "two_byte_tile_ok S" and tc: "tile_size_col RT = 16" and j: "0 \<le> j"
  shows "added (concat (map ptx_writes (atomic_add_tile E RT S src i j))) a
       = added (concat (map ptx_writes (store_tile E RT S src i j))) a"
proof -
  have st: "store_tile E RT S src i j =
     [Stsm4t (\<lambda>l. st_idx S (st_data S)
                        (i * tile_size_row RT + l smod 16, j * 16 + (l sdiv 16) * 8))
         (\<lambda>l. (to_shared E (src l i j ! 0), to_shared E (src l i j ! 2),
               to_shared E (src l i j ! 1), to_shared E (src l i j ! 3)))]"
    by (simp add: store_tile_def Let_def sz hop lay tc)
  have at: "atomic_add_tile E RT S src i j = concat (map (\<lambda>laneid.
          (let row = i * tile_size_row RT + 2 * (laneid smod 4);
               col = j * tile_size_col RT + laneid sdiv 4;
               tmp0 = to_shared E (src laneid i j ! 0);
               tmp1 = to_shared E (src laneid i j ! 1);
               tmp2 = to_shared E (src laneid i j ! 2);
               tmp3 = to_shared E (src laneid i j ! 3)
           in [Adds (st_idx S (st_data S) (row + 0, col + 0)) (fst tmp0),
               Adds (st_idx S (st_data S) (row + 1, col + 0)) (snd tmp0),
               Adds (st_idx S (st_data S) (row + 0, col + 8)) (fst tmp1),
               Adds (st_idx S (st_data S) (row + 1, col + 8)) (snd tmp1),
               Adds (st_idx S (st_data S) (row + 8, col + 0)) (fst tmp2),
               Adds (st_idx S (st_data S) (row + 9, col + 0)) (snd tmp2),
               Adds (st_idx S (st_data S) (row + 8, col + 8)) (fst tmp3),
               Adds (st_idx S (st_data S) (row + 9, col + 8)) (snd tmp3)])) lanes)"
    by (simp add: atomic_add_tile_def Let_def sz lay)
  show ?thesis
    unfolding st at concat_map_concat list.map concat.simps append_Nil2 ptx_writes.simps
      stmatrix_x4_trans_writes_def added_concat map_map comp_def
    apply (rule sum_list_map_cong_set)
    subgoal premises p for l
      unfolding Let_def col_matrix_addresses [OF sz ok tc j p, of i] fst_conv snd_conv
      by (simp add: added_Cons added_Nil ac_simps)
    done
qed

lemma added_tile:
  fixes S :: "'a::len word shared_tile" and src :: "'t regs"
    and E :: "('a word, 'u::comm_monoid_add, 't) env"
  assumes n1: "sizeof_dtype (st_type S) \<noteq> 1"
    and hop: "sizeof_dtype (st_type S) = 2 \<and> KITTENS_HOPPER E
              \<longrightarrow> two_byte_tile_ok S \<and> tile_size_col RT = 16"
    and j: "0 \<le> j"
  shows "added (concat (map ptx_writes (atomic_add_tile E RT S src i j))) a
       = added (concat (map ptx_writes (store_tile E RT S src i j))) a"
proof (cases "sizeof_dtype (st_type S) = 2 \<and> KITTENS_HOPPER E")
  case True
  with hop have h: "sizeof_dtype (st_type S) = 2" "KITTENS_HOPPER E" "two_byte_tile_ok S"
    "tile_size_col RT = 16" by simp_all
  show ?thesis
  proof (cases "layout RT = rt_layout_row")
    case True
    from added_tile_hopper_row [OF h(1,2) True h(3,4) j] show ?thesis .
  next
    case False
    from added_tile_hopper_col [OF h(1,2) False h(3,4) j] show ?thesis .
  qed
next
  case False
  from added_tile_single_stores [OF False n1] show ?thesis by simp
qed

lemma atomic_add_result:
  fixes S :: "'a::len word shared_tile" and src :: "'t regs"
    and E :: "('a word, 'u::comm_monoid_add, 't) env"
  assumes n1: "sizeof_dtype (st_type S) \<noteq> 1"
    and hop: "sizeof_dtype (st_type S) = 2 \<and> KITTENS_HOPPER E
              \<longrightarrow> two_byte_tile_ok S \<and> tile_size_col RT = 16"
    and hh: "rt_height RT = st_height S" and ww: "rt_width RT = st_width S"
  shows "atomic_add E RT S src mem = Inr (\<lambda>a. mem a + added (store_writes E RT S src) a)"
proof -
  let ?ops = "concat (map (\<lambda>i. concat (map (\<lambda>j. atomic_add_tile E RT S src i j)
                 [0..rt_width RT - 1])) [0..rt_height RT - 1])"
  have a: "atomic_add E RT S src mem = Inr (fold (exec E) ?ops mem)"
    by (simp add: atomic_add_def hh ww n1 fold_fold_concat_fun)
  have all: "list_all is_adds ?ops"
    using atomic_add_tile_adds [of E RT S src] by (auto simp add: list_all_iff)
  have "added (concat (map ptx_writes ?ops)) x = added (store_writes E RT S src) x" for x
    unfolding store_writes_def concat_map_concat map_map comp_def added_concat
    apply (rule sum_list_map_cong_set)
    apply (rule sum_list_map_cong_set)
    subgoal for i j
      using added_tile [OF n1 hop, where j = j and i = i and a = x and src = src]
      by (simp add: added_concat comp_def)
    done
  with fold_exec_adds [OF all, of E mem] a show ?thesis by simp
qed

lemma store_result:
  fixes S :: "'a::len word shared_tile" and src :: "'t regs"
    and E :: "('a word, 'u::comm_monoid_add, 't) env"
  assumes px: "ptx_stores E"
    and hh: "rt_height RT = st_height S" and ww: "rt_width RT = st_width S"
  shows "store E RT S src mem = Inr (overwritten (store_writes E RT S src) mem)"
proof -
  let ?ops = "concat (map (\<lambda>i. concat (map (\<lambda>j. store_tile E RT S src i j)
                 [0..rt_width RT - 1])) [0..rt_height RT - 1])"
  have a: "store E RT S src mem = Inr (fold (exec E) ?ops mem)"
    by (simp add: store_def hh ww fold_fold_concat_fun)
  have all: "list_all (\<lambda>x. \<not> is_adds x) ?ops"
    using store_tile_no_adds [of E RT S src] by (auto simp add: list_all_iff)
  have "concat (map ptx_writes ?ops) = store_writes E RT S src"
    unfolding store_writes_def concat_map_concat map_map comp_def ..
  with fold_exec_stores [OF px all, of mem] a show ?thesis by simp
qed


lemma fold_exec_as_store:
  assumes "list_all is_adds ops"
  shows "fold (exec E) (map as_store ops) mem = overwritten (concat (map ptx_writes ops)) mem"
  using assms
proof (induction ops arbitrary: mem)
  case Nil
  then show ?case by (simp add: overwritten_def)
next
  case (Cons x xs)
  from Cons.prems obtain b v where x: "x = Adds b v" by (cases x) simp_all
  from Cons.prems have "list_all is_adds xs" by simp
  from Cons.IH [OF this] show ?case
    by (simp add: x overwritten_def)
qed

lemma store_result_single_stores:
  fixes S :: "'a::len word shared_tile" and src :: "'t regs"
    and E :: "('a word, 'u::comm_monoid_add, 't) env"
  assumes nh: "\<not> (sizeof_dtype (st_type S) = 2 \<and> KITTENS_HOPPER E)"
    and n1: "sizeof_dtype (st_type S) \<noteq> 1"
    and hh: "rt_height RT = st_height S" and ww: "rt_width RT = st_width S"
  shows "store E RT S src mem = Inr (overwritten (store_writes E RT S src) mem)"
proof -
  let ?ops = "concat (map (\<lambda>i. concat (map (\<lambda>j. atomic_add_tile E RT S src i j)
                 [0..rt_width RT - 1])) [0..rt_height RT - 1])"
  have t: "store_tile E RT S src i j = map as_store (atomic_add_tile E RT S src i j)" for i j
    by (rule atomic_add_tile_store_tile [OF nh n1, symmetric])
  have a: "store E RT S src mem = Inr (fold (exec E) (map as_store ?ops) mem)"
    by (simp add: store_def hh ww fold_fold_concat_fun t map_concat comp_def)
  have all: "list_all is_adds ?ops"
    using atomic_add_tile_adds [of E RT S src] by (auto simp add: list_all_iff)
  have "concat (map ptx_writes ?ops) = store_writes E RT S src"
    unfolding store_writes_def concat_map_concat map_map comp_def
    by (simp only: added_tile_single_stores [OF nh n1])
  with fold_exec_as_store [OF all, of E mem] a show ?thesis by simp
qed

text \<open>
  C5.  \<open>atomic_add\<close> on a tile of one-byte elements is rejected by a static assertion,
  whatever the run-time arguments.  On two- and four-byte elements, with matching
  height and width, it returns, every operation it issues is an atomic add, and it
  leaves at every address the old contents plus the sum of the values that \<open>store\<close>
  writes to that address, where \<open>store\<close> leaves the last of them: the two go to the
  same addresses with the same values, one adding and the other overwriting.  Where
  \<open>store\<close> uses a grouped store (two-byte elements on Hopper) its writes are those of
  the \<open>stmatrix\<close> instruction, and the tile is valid, aligned to 16 bytes and made of
  base tiles 16 columns wide.
\<close>

theorem atomic_add_contract:
  fixes S :: "'a::len word shared_tile" and src :: "'t regs"
    and E :: "('a word, 'u::comm_monoid_add, 't) env"
  shows
  "(sizeof_dtype (st_type S) = 1 \<longrightarrow> \<not> instantiates (atomic_add E RT S src mem))
   \<and> ((sizeof_dtype (st_type S) = 2 \<or> sizeof_dtype (st_type S) = 4)
        \<and> rt_height RT = st_height S \<and> rt_width RT = st_width S
        \<and> (sizeof_dtype (st_type S) = 2 \<and> KITTENS_HOPPER E
              \<longrightarrow> two_byte_tile_ok S \<and> tile_size_col RT = 16) \<longrightarrow>
       atomic_add E RT S src mem
         = Inr (\<lambda>a. mem a + added (store_writes E RT S src) a)
       \<and> list_all is_adds (atomic_add_tile E RT S src i j)
       \<and> (ptx_stores E \<or> \<not> (sizeof_dtype (st_type S) = 2 \<and> KITTENS_HOPPER E) \<longrightarrow>
            store E RT S src mem = Inr (overwritten (store_writes E RT S src) mem)))"
proof (intro conjI impI)
  assume "sizeof_dtype (st_type S) = 1"
  then show "\<not> instantiates (atomic_add E RT S src mem)"
    by (simp add: atomic_add_def instantiates_def)
next
  assume h: "(sizeof_dtype (st_type S) = 2 \<or> sizeof_dtype (st_type S) = 4)
        \<and> rt_height RT = st_height S \<and> rt_width RT = st_width S
        \<and> (sizeof_dtype (st_type S) = 2 \<and> KITTENS_HOPPER E
              \<longrightarrow> two_byte_tile_ok S \<and> tile_size_col RT = 16)"
  then have n1: "sizeof_dtype (st_type S) \<noteq> 1" by auto
  from h have hop: "sizeof_dtype (st_type S) = 2 \<and> KITTENS_HOPPER E
              \<longrightarrow> two_byte_tile_ok S \<and> tile_size_col RT = 16" by blast
  from h have hh: "rt_height RT = st_height S" and ww: "rt_width RT = st_width S" by blast+
  show "atomic_add E RT S src mem = Inr (\<lambda>a. mem a + added (store_writes E RT S src) a)"
    by (rule atomic_add_result [OF n1 hop hh ww])
  show "list_all is_adds (atomic_add_tile E RT S src i j)"
    by (rule atomic_add_tile_adds)
  assume "ptx_stores E \<or> \<not> (sizeof_dtype (st_type S) = 2 \<and> KITTENS_HOPPER E)"
  then show "store E RT S src mem = Inr (overwritten (store_writes E RT S src) mem)"
  proof
    assume "ptx_stores E"
    then show ?thesis by (rule store_result [OF _ hh ww])
  next
    assume "\<not> (sizeof_dtype (st_type S) = 2 \<and> KITTENS_HOPPER E)"
    then show ?thesis by (rule store_result_single_stores [OF _ n1 hh ww])
  qed
qed

theorem atomic_add_contract_witness:
  "\<not> instantiates (atomic_add (ptx_env False)
        \<lparr>rt_height = 1, rt_width = 1, tile_size_row = 16, tile_size_col = 32,
          layout = rt_layout_row\<rparr>
        (Root \<lparr>sizeof_dtype = 1, packing_num = 1, rows = 16, cols = 32\<rparr> (0 :: 32 word))
        (\<lambda>l i j. [(1, 1), (1, 1), (1, 1), (1, 1)]) (\<lambda>a. 0))
   \<and> atomic_add (ptx_env True)
        \<lparr>rt_height = 1, rt_width = 1, tile_size_row = 16, tile_size_col = 16,
          layout = rt_layout_col\<rparr>
        (Root \<lparr>sizeof_dtype = 2, packing_num = 1, rows = 16, cols = 16\<rparr> (0 :: 32 word))
        (\<lambda>l i j. [(1, 1), (1, 1), (1, 1), (1, 1)]) (\<lambda>a. 5)
      = Inr (\<lambda>a. 5 + added (store_writes (ptx_env True)
        \<lparr>rt_height = 1, rt_width = 1, tile_size_row = 16, tile_size_col = 16,
          layout = rt_layout_col\<rparr>
        (Root \<lparr>sizeof_dtype = 2, packing_num = 1, rows = 16, cols = 16\<rparr> (0 :: 32 word))
        (\<lambda>l i j. [(1, 1), (1, 1), (1, 1), (1, 1)])) a)
   \<and> store (ptx_env True)
        \<lparr>rt_height = 1, rt_width = 1, tile_size_row = 16, tile_size_col = 16,
          layout = rt_layout_col\<rparr>
        (Root \<lparr>sizeof_dtype = 2, packing_num = 1, rows = 16, cols = 16\<rparr> (0 :: 32 word))
        (\<lambda>l i j. [(1, 1), (1, 1), (1, 1), (1, 1)]) (\<lambda>a. 5)
      = Inr (overwritten (store_writes (ptx_env True)
        \<lparr>rt_height = 1, rt_width = 1, tile_size_row = 16, tile_size_col = 16,
          layout = rt_layout_col\<rparr>
        (Root \<lparr>sizeof_dtype = 2, packing_num = 1, rows = 16, cols = 16\<rparr> (0 :: 32 word))
        (\<lambda>l i j. [(1, 1), (1, 1), (1, 1), (1, 1)])) (\<lambda>a. 5))
   \<and> added (store_writes (ptx_env True)
        \<lparr>rt_height = 1, rt_width = 1, tile_size_row = 16, tile_size_col = 16,
          layout = rt_layout_col\<rparr>
        (Root \<lparr>sizeof_dtype = 2, packing_num = 1, rows = 16, cols = 16\<rparr> (0 :: 32 word))
        (\<lambda>l i j. [(1, 1), (1, 1), (1, 1), (1, 1)])) 0 = (1 :: int)
   \<and> overwritten (store_writes (ptx_env True)
        \<lparr>rt_height = 1, rt_width = 1, tile_size_row = 16, tile_size_col = 16,
          layout = rt_layout_col\<rparr>
        (Root \<lparr>sizeof_dtype = 2, packing_num = 1, rows = 16, cols = 16\<rparr> (0 :: 32 word))
        (\<lambda>l i j. [(1, 1), (1, 1), (1, 1), (1, 1)])) (\<lambda>a. 5) 0 = (1 :: int)"
proof -
  let ?RT1 = "\<lparr>rt_height = 1, rt_width = 1, tile_size_row = 16, tile_size_col = 32,
          layout = rt_layout_row\<rparr>"
  let ?S1 = "Root \<lparr>sizeof_dtype = 1, packing_num = 1, rows = 16, cols = 32\<rparr> (0 :: 32 word)"
  let ?RT2 = "\<lparr>rt_height = 1, rt_width = 1, tile_size_row = 16, tile_size_col = 16,
          layout = rt_layout_col\<rparr>"
  let ?S2 = "Root \<lparr>sizeof_dtype = 2, packing_num = 1, rows = 16, cols = 16\<rparr> (0 :: 32 word)"
  let ?src = "\<lambda>(l::int) (i::int) (j::int). [(1::int, 1::int), (1, 1), (1, 1), (1, 1)]"
  let ?E = "ptx_env True :: (32 word, int, int) env"
  have s1: "sizeof_dtype (st_type ?S1) = 1" by simp
  have v: "two_byte_tile_ok ?S2"
    by (simp add: two_byte_tile_ok_def st_valid_def st_static_asserts_def smod_eq_0_iff
        TILE_ROW_DIM_def TILE_COL_DIM_def)
  have s2: "(sizeof_dtype (st_type ?S2) = 2 \<or> sizeof_dtype (st_type ?S2) = 4)
      \<and> rt_height ?RT2 = st_height ?S2 \<and> rt_width ?RT2 = st_width ?S2
      \<and> (sizeof_dtype (st_type ?S2) = 2 \<and> KITTENS_HOPPER ?E
            \<longrightarrow> two_byte_tile_ok ?S2 \<and> tile_size_col ?RT2 = 16)"
    using v by (simp add: st_height_def st_width_def TILE_ROW_DIM_def TILE_COL_DIM_def
        signed_divide_int_def)
  have px: "ptx_stores ?E \<or> \<not> (sizeof_dtype (st_type ?S2) = 2 \<and> KITTENS_HOPPER ?E)"
    by (simp add: ptx_stores_def ptx_env_def)
  from atomic_add_contract [of ?S1 "ptx_env False" ?RT1 ?src "\<lambda>a. 0" 0 0] s1
  have 1: "\<not> instantiates (atomic_add (ptx_env False) ?RT1 ?S1 ?src (\<lambda>a. 0))"
    by blast
  from atomic_add_contract [of ?S2 ?E ?RT2 ?src "\<lambda>a. 5" 0 0] s2 px
  have 2: "atomic_add ?E ?RT2 ?S2 ?src (\<lambda>a. 5)
             = Inr (\<lambda>a. 5 + added (store_writes ?E ?RT2 ?S2 ?src) a)
      \<and> store ?E ?RT2 ?S2 ?src (\<lambda>a. 5)
             = Inr (overwritten (store_writes ?E ?RT2 ?S2 ?src) (\<lambda>a. 5))"
    by blast
  have 3: "added (store_writes ?E ?RT2 ?S2 ?src) 0 = (1 :: int)"
    by code_simp
  have 4: "overwritten (store_writes ?E ?RT2 ?S2 ?src) (\<lambda>a. 5) 0 = (1 :: int)"
    by code_simp
  from 1 2 3 4 show ?thesis by blast
qed

subsection \<open>A combination that load does not handle\<close>

lemma load_tile_one_byte_col:
  assumes "sizeof_dtype (st_type S) = 1" and "layout RT = rt_layout_col"
  shows "load_tile E RT S mem l i j = None"
  by (simp add: load_tile_def assms)

lemma load_one_byte_col:
  assumes sz: "sizeof_dtype (st_type S) = 1" and lay: "layout RT = rt_layout_col"
    and hh: "rt_height RT = st_height S" and ww: "rt_width RT = st_width S"
  shows "load E RT S mem dst = Inr dst"
proof -
  have b: "load_body E RT S mem l i j tiles = tiles" for l i j tiles
    by (simp add: load_body_def load_tile_one_byte_col [OF sz lay])
  have f: "fold (\<lambda>i. fold (load_body E RT S mem l i) js) rs tiles = tiles" for l js rs tiles
    by (rule fold_fixed, rule fold_fixed) (rule b)
  have "(\<lambda>laneid.
        if laneid \<in> set lanes
        then fold (\<lambda>i. fold (load_body E RT S mem laneid i) [0..rt_width RT - 1])
               [0..rt_height RT - 1] (dst laneid)
        else dst laneid) = dst"
    by (rule ext) (simp add: f)
  then show ?thesis by (simp add: load_def hh ww)
qed

text \<open>
  C8 fails on the code: \<open>load\<close> from a tile of one-byte elements into a column-major
  register tile passes both static assertions and returns the destination fragment
  unchanged, whatever shared memory holds, while \<open>store\<close> for the same combination
  issues a grouped store.
\<close>

theorem load_one_byte_col_major_is_silent:
  "load E \<lparr>rt_height = 1, rt_width = 1, tile_size_row = 16, tile_size_col = 32,
           layout = rt_layout_col\<rparr>
        (Root \<lparr>sizeof_dtype = 1, packing_num = 1, rows = 16, cols = 32\<rparr> d) mem dst = Inr dst
   \<and> store_tile E \<lparr>rt_height = 1, rt_width = 1, tile_size_row = 16, tile_size_col = 32,
           layout = rt_layout_col\<rparr>
        (Root \<lparr>sizeof_dtype = 1, packing_num = 1, rows = 16, cols = 32\<rparr> d) src 0 0 \<noteq> []"
proof -
  have "load E \<lparr>rt_height = 1, rt_width = 1, tile_size_row = 16, tile_size_col = 32,
           layout = rt_layout_col\<rparr>
        (Root \<lparr>sizeof_dtype = 1, packing_num = 1, rows = 16, cols = 32\<rparr> d) mem dst = Inr dst"
    by (rule load_one_byte_col)
      (simp_all add: st_height_def st_width_def TILE_ROW_DIM_def TILE_COL_DIM_def
        signed_divide_int_def)
  then show ?thesis by (simp add: store_tile_def Let_def)
qed

lemma fold_writes_last:
  assumes "\<And>w. w \<in> set ws \<Longrightarrow> snd w = v" and "a \<in> fst ` set ws"
  shows "fold (\<lambda>w m. m(fst w := snd w)) ws m a = v"
  using assms
proof (induction ws arbitrary: m rule: rev_induct)
  case Nil
  then show ?case by simp
next
  case (snoc x xs)
  show ?case
  proof (cases "fst x = a")
    case True
    then show ?thesis using snoc.prems(1) [of x] by simp
  next
    case False
    with snoc.prems(2) have "a \<in> fst ` set xs" by auto
    with snoc.IH [OF _ this] snoc.prems(1) False show ?thesis by simp
  qed
qed

text \<open>
  C3 fails on the code for one-byte elements and a column-major register tile.  Both
  \<open>load\<close> and \<open>store\<close> are instantiated; \<open>load\<close> has no case for the combination and
  leaves the registers as they were, so the grouped store of \<open>store\<close> writes to the tile
  what the registers held before the load, not what the tile held.  With the
  \<open>stmatrix\<close> store, a tile of zeros and registers that held ones, the tile does not
  come back as it was.
\<close>

theorem round_trip_fails_one_byte_col_major:
  fixes E :: "('a::len word, 'u::plus, 't) env"
  shows "store_after_load E
       \<lparr>rt_height = 1, rt_width = 1, tile_size_row = 16, tile_size_col = 32,
         layout = rt_layout_col\<rparr>
       (Root \<lparr>sizeof_dtype = 1, packing_num = 1, rows = 16, cols = 32\<rparr> d) mem dst
     = Inr (stsm4t E mem
         (\<lambda>l. idx \<lparr>sizeof_dtype = 1, packing_num = 1, rows = 16, cols = 32\<rparr> d
                 (l smod 16, (l sdiv 16) * 16))
         (\<lambda>l. (to_shared E (dst l 0 0 ! 0), to_shared E (dst l 0 0 ! 2),
                to_shared E (dst l 0 0 ! 1), to_shared E (dst l 0 0 ! 3))))
   \<and> store_after_load (ptx_env False)
       \<lparr>rt_height = 1, rt_width = 1, tile_size_row = 16, tile_size_col = 32,
         layout = rt_layout_col\<rparr>
       (Root \<lparr>sizeof_dtype = 1, packing_num = 1, rows = 16, cols = 32\<rparr> (0 :: 32 word))
       (\<lambda>a. 0) (\<lambda>l i j. [(1, 1), (1, 1), (1, 1), (1, 1)])
     \<noteq> Inr (\<lambda>a. 0)"
proof -
  let ?RT = "\<lparr>rt_height = 1, rt_width = 1, tile_size_row = 16, tile_size_col = 32,
         layout = rt_layout_col\<rparr>"
  let ?t = "\<lparr>sizeof_dtype = 1, packing_num = 1, rows = 16, cols = 32\<rparr>"
  have hw: "rt_height ?RT = st_height (Root ?t p)" "rt_width ?RT = st_width (Root ?t p)" for p :: 'q
    by (simp_all add: st_height_def st_width_def TILE_ROW_DIM_def TILE_COL_DIM_def
        signed_divide_int_def)
  have ld: "load E' ?RT (Root ?t p) m r = Inr r"
    for E' :: "('x::len word, 'y, 'z) env" and p m r
    by (rule load_one_byte_col [OF _ _ hw]) simp_all
  have st: "store E' ?RT (Root ?t p) r m
      = Inr (stsm4t E' m (\<lambda>l. idx ?t p (l smod 16, (l sdiv 16) * 16))
           (\<lambda>l. (to_shared E' (r l 0 0 ! 0), to_shared E' (r l 0 0 ! 2),
                  to_shared E' (r l 0 0 ! 1), to_shared E' (r l 0 0 ! 3))))"
    for E' :: "('x::len word, 'y::plus, 'z) env" and p m r
    by (simp add: store_def hw [symmetric] store_tile_def Let_def)
  have 1: "store_after_load E' ?RT (Root ?t p) m r
      = Inr (stsm4t E' m (\<lambda>l. idx ?t p (l smod 16, (l sdiv 16) * 16))
           (\<lambda>l. (to_shared E' (r l 0 0 ! 0), to_shared E' (r l 0 0 ! 2),
                  to_shared E' (r l 0 0 ! 1), to_shared E' (r l 0 0 ! 3))))"
    for E' :: "('x::len word, 'y::plus, 'z) env" and p m r
    by (simp only: store_after_load_def ld st sum.case)
  let ?addr = "\<lambda>l. idx ?t (0 :: 32 word) (l smod 16, (l sdiv 16) * 16)"
  let ?vals = "\<lambda>l::int. ((1::int, 1::int), (1::int, 1::int), (1::int, 1::int), (1::int, 1::int))"
  let ?ws = "stmatrix_x4_trans_writes ?addr ?vals"
  have v: "snd w = 1" if "w \<in> set ?ws" for w
    using that by (auto simp add: stmatrix_x4_trans_writes_def Let_def)
  have l0: "(0::int) \<in> set lanes" by (simp add: lanes_def)
  have "(?addr 0 + 0, 1) \<in> set ?ws"
    unfolding stmatrix_x4_trans_writes_def set_concat set_map image_image
    by (rule UN_I [OF l0]) (simp add: Let_def)
  then have a: "?addr 0 + 0 \<in> fst ` set ?ws" by force
  have "stmatrix_x4_trans (\<lambda>a. 0) ?addr ?vals (?addr 0 + 0) = 1"
    unfolding stmatrix_x4_trans_def by (rule fold_writes_last [OF v a])
  then have "stmatrix_x4_trans (\<lambda>a. 0) ?addr ?vals \<noteq> (\<lambda>a. 0)"
    by (metis zero_neq_one)
  then have 2: "store_after_load (ptx_env False) ?RT (Root ?t (0 :: 32 word))
       (\<lambda>a. 0) (\<lambda>l i j. [(1, 1), (1, 1), (1, 1), (1, 1)]) \<noteq> Inr (\<lambda>a. 0)"
    unfolding 1 by (simp add: ptx_env_def)
  from 1 2 show ?thesis by (rule conjI)
qed

end
